theory Spec2Isabelle
  imports Main "HOL-Library.Char_ord" "HOL-Library.List_Lexorder"
begin

section \<open>Python strings\<close>

text \<open>
  Texts are \<^typ>\<open>string\<close>: lists of characters with code points below 256.  The
  character classes below are Python's \<^verbatim>\<open>str.isspace\<close> and decimal digits on
  that range (they are also what \<^verbatim>\<open>\s\<close> and \<^verbatim>\<open>\d\<close> match in
  a \<^verbatim>\<open>str\<close> pattern).
\<close>

definition is_space :: "char \<Rightarrow> bool" where
  "is_space c = (let n = (of_char c :: nat) in
     (9 \<le> n \<and> n \<le> 13) \<or> (28 \<le> n \<and> n \<le> 32) \<or> n = 133 \<or> n = 160)"

definition is_digit :: "char \<Rightarrow> bool" where
  "is_digit c = (let n = (of_char c :: nat) in 48 \<le> n \<and> n \<le> 57)"

definition newline :: char where
  "newline = CHR 0x0A"

text \<open>\<^verbatim>\<open>s.strip()\<close>\<close>

definition py_strip :: "string \<Rightarrow> string" where
  "py_strip s = rev (dropWhile is_space (rev (dropWhile is_space s)))"

text \<open>\<^verbatim>\<open>s.startswith(p)\<close> and \<^verbatim>\<open>s.endswith(p)\<close>\<close>

definition startswith :: "string \<Rightarrow> string \<Rightarrow> bool" where
  "startswith s p = (take (length p) s = p)"

definition endswith :: "string \<Rightarrow> string \<Rightarrow> bool" where
  "endswith s p = (length p \<le> length s \<and> drop (length s - length p) s = p)"

text \<open>\<^verbatim>\<open>sub in s\<close>\<close>

fun contains :: "string \<Rightarrow> string \<Rightarrow> bool" where
  "contains [] sub = (sub = [])"
| "contains (c # s) sub = (startswith (c # s) sub \<or> contains s sub)"

text \<open>\<^verbatim>\<open>s.find(sub)\<close>: the first index of \<open>sub\<close>, or -1.\<close>

fun find_from :: "nat \<Rightarrow> string \<Rightarrow> string \<Rightarrow> int" where
  "find_from i [] sub = (if sub = [] then int i else - 1)"
| "find_from i (c # s) sub = (if startswith (c # s) sub then int i else find_from (Suc i) s sub)"

definition py_find :: "string \<Rightarrow> string \<Rightarrow> int" where
  "py_find s sub = find_from 0 s sub"

text \<open>\<^verbatim>\<open>s[i:]\<close> for an integer index: a negative index counts from the end.\<close>

definition slice_from :: "string \<Rightarrow> int \<Rightarrow> string" where
  "slice_from s i = (if 0 \<le> i then drop (nat i) s else drop (length s - nat (- i)) s)"

text \<open>\<^verbatim>\<open>s.lower()\<close> on code points below 256.\<close>

definition lower_char :: "char \<Rightarrow> char" where
  "lower_char c = (let n = (of_char c :: nat) in
     if (65 \<le> n \<and> n \<le> 90) \<or> (192 \<le> n \<and> n \<le> 222 \<and> n \<noteq> 215) then char_of (n + 32) else c)"

definition py_lower :: "string \<Rightarrow> string" where
  "py_lower s = map lower_char s"

text \<open>\<^verbatim>\<open>sep.join(xs)\<close>\<close>

fun py_join :: "string \<Rightarrow> string list \<Rightarrow> string" where
  "py_join sep [] = []"
| "py_join sep [x] = x"
| "py_join sep (x # y # xs) = x @ sep @ py_join sep (y # xs)"

text \<open>\<^verbatim>\<open>s.replace(old, new)\<close>: every non-overlapping occurrence, left to right.\<close>

function py_replace :: "string \<Rightarrow> string \<Rightarrow> string \<Rightarrow> string" where
  "py_replace old new s =
     (if old = [] then new @ concat (map (\<lambda>c. c # new) s)
      else if s = [] then []
      else if startswith s old then new @ py_replace old new (drop (length old) s)
      else hd s # py_replace old new (tl s))"
  by pat_completeness auto
termination
  by (relation "measure (\<lambda>(old, new, s). length s)") auto

declare py_replace.simps [simp del]

text \<open>\<^verbatim>\<open>content.split('$$')\<close>\<close>

fun split_dollars_from :: "string \<Rightarrow> string \<Rightarrow> string list" where
  "split_dollars_from cur [] = [rev cur]"
| "split_dollars_from cur [c] = [rev (c # cur)]"
| "split_dollars_from cur (c # d # s) =
     (if c = CHR ''$'' \<and> d = CHR ''$'' then rev cur # split_dollars_from [] s
      else split_dollars_from (c # cur) (d # s))"

definition split_dollars :: "string \<Rightarrow> string list" where
  "split_dollars s = split_dollars_from [] s"

text \<open>Decimal numerals: \<^verbatim>\<open>str(n)\<close> and the zero-padded \<^verbatim>\<open>%02d\<close>, \<^verbatim>\<open>%04d\<close>.\<close>

definition digit_char :: "nat \<Rightarrow> char" where
  "digit_char n = ''0123456789'' ! (n mod 10)"

fun str_nat :: "nat \<Rightarrow> string" where
  "str_nat n = (if n < 10 then [digit_char n] else str_nat (n div 10) @ [digit_char (n mod 10)])"

declare str_nat.simps [simp del]

definition zero_pad :: "nat \<Rightarrow> nat \<Rightarrow> string" where
  "zero_pad w n = replicate (w - length (str_nat n)) (CHR ''0'') @ str_nat n"

definition digit_val :: "char \<Rightarrow> nat" where
  "digit_val c = of_char c - 48"

definition int_of_digits :: "string \<Rightarrow> nat" where
  "int_of_digits s = foldl (\<lambda>a c. 10 * a + digit_val c) 0 s"

section \<open>Regular expressions as Python's \<^verbatim>\<open>re\<close> matches them\<close>

text \<open>
  A pattern string is written as a term of \<open>rx\<close>.  The flags of a call are part of the
  translation: \<^verbatim>\<open>.\<close> is \<open>RAny\<close> under DOTALL and \<open>RNoNl\<close> otherwise,
  \<^verbatim>\<open>^\<close> and \<^verbatim>\<open>$\<close> are \<open>RBolM\<close> and \<open>REolM\<close> under MULTILINE and
  \<open>RBos\<close> and \<open>REos\<close> otherwise, \<^verbatim>\<open>\Z\<close> is \<open>REndZ\<close>.  \<open>RRep lo hi greedy r\<close>
  is a quantifier (\<open>hi = None\<close>: no upper bound), \<open>RGrp k r\<close> is capturing group
  number \<open>k\<close> (counted from 1), \<open>RAhead\<close> and \<open>RNotAhead\<close> are the lookaheads
  \<^verbatim>\<open>(?=...)\<close> and \<^verbatim>\<open>(?!...)\<close>.
\<close>

datatype citem = One char | Range char char | Digit | Space

fun citem_match :: "citem \<Rightarrow> char \<Rightarrow> bool" where
  "citem_match (One a) c = (c = a)"
| "citem_match (Range lo hi) c =
     ((of_char lo :: nat) \<le> of_char c \<and> (of_char c :: nat) \<le> of_char hi)"
| "citem_match Digit c = is_digit c"
| "citem_match Space c = is_space c"

datatype rx =
    REps
  | RChr char
  | RAny
  | RNoNl
  | RSet bool "citem list"
  | RSeq rx rx
  | RAlt rx rx
  | RRep nat "nat option" bool rx
  | RGrp nat rx
  | RAhead rx
  | RNotAhead rx
  | RBos
  | RBolM
  | REos
  | REolM
  | REndZ

text \<open>
  A matcher state: the character before the current position (if any), the text from the
  current position on, and what the groups have captured so far.
\<close>

datatype mstate = MState (prev: "char option") (rest: string) (caps: "string option list")

fun step_char :: "(char \<Rightarrow> bool) \<Rightarrow> mstate \<Rightarrow> mstate list" where
  "step_char p (MState pr [] cs) = []"
| "step_char p (MState pr (c # s) cs) = (if p c then [MState (Some c) s cs] else [])"

text \<open>
  The matcher returns every way a pattern can match at a position, in the order in which
  the backtracking matcher tries them; the match it reports is the first.  A quantifier
  stops iterating when an iteration consumes nothing.
\<close>

function rep :: "(mstate \<Rightarrow> mstate list) \<Rightarrow> bool \<Rightarrow> nat \<Rightarrow> nat option \<Rightarrow> mstate \<Rightarrow> mstate list" where
  "rep f greedy lo hi st =
     (let stop = (if lo = 0 then [st] else []);
          more = (if hi = Some 0 then []
                  else concat (map (\<lambda>st'. rep f greedy (lo - 1) (map_option (\<lambda>h. h - 1) hi) st')
                                   (filter (\<lambda>st'. length (rest st') < length (rest st)) (f st))))
      in if greedy then more @ stop else stop @ more)"
  by pat_completeness auto
termination
  by (relation "measure (\<lambda>(f, greedy, lo, hi, st). length (rest st))") auto

declare rep.simps [simp del]

fun rmatch :: "rx \<Rightarrow> mstate \<Rightarrow> mstate list" where
  "rmatch REps st = [st]"
| "rmatch (RChr a) st = step_char (\<lambda>c. c = a) st"
| "rmatch RAny st = step_char (\<lambda>c. True) st"
| "rmatch RNoNl st = step_char (\<lambda>c. c \<noteq> newline) st"
| "rmatch (RSet neg items) st = step_char (\<lambda>c. list_ex (\<lambda>i. citem_match i c) items \<noteq> neg) st"
| "rmatch (RSeq a b) st = concat (map (\<lambda>st'. rmatch b st') (rmatch a st))"
| "rmatch (RAlt a b) st = rmatch a st @ rmatch b st"
| "rmatch (RRep lo hi greedy r) st = rep (\<lambda>st'. rmatch r st') greedy lo hi st"
| "rmatch (RGrp k r) st =
     map (\<lambda>st'. MState (prev st') (rest st')
                  ((caps st')[k - 1 := Some (take (length (rest st) - length (rest st')) (rest st))]))
         (rmatch r st)"
| "rmatch (RAhead r) st =
     (case rmatch r st of [] \<Rightarrow> [] | st' # _ \<Rightarrow> [MState (prev st) (rest st) (caps st')])"
| "rmatch (RNotAhead r) st = (case rmatch r st of [] \<Rightarrow> [st] | _ # _ \<Rightarrow> [])"
| "rmatch RBos st = (if prev st = None then [st] else [])"
| "rmatch RBolM st = (if prev st = None \<or> prev st = Some newline then [st] else [])"
| "rmatch REos st = (if rest st = [] \<or> rest st = [newline] then [st] else [])"
| "rmatch REolM st = (case rest st of [] \<Rightarrow> [st] | c # _ \<Rightarrow> if c = newline then [st] else [])"
| "rmatch REndZ st = (if rest st = [] then [st] else [])"

fun ngroups :: "rx \<Rightarrow> nat" where
  "ngroups (RSeq a b) = ngroups a + ngroups b"
| "ngroups (RAlt a b) = ngroups a + ngroups b"
| "ngroups (RRep lo hi greedy r) = ngroups r"
| "ngroups (RGrp k r) = Suc (ngroups r)"
| "ngroups (RAhead r) = ngroups r"
| "ngroups (RNotAhead r) = ngroups r"
| "ngroups r = 0"

text \<open>
  One match of a scan: the text skipped since the previous match, the matched text
  (group 0) and the groups, a group that took no part being the empty string.
\<close>

datatype mt = Mt (pre: string) (whole: string) (groups: "string list")

text \<open>
  The scan behind \<^verbatim>\<open>re.findall\<close>, \<^verbatim>\<open>re.search\<close> and \<^verbatim>\<open>re.sub\<close>:
  the leftmost match from the current position, then on from its end; directly after an
  empty match, the next match at that position must not be empty.  The scan returns the
  matches and the text after the last one.
\<close>

function scan :: "rx \<Rightarrow> nat \<Rightarrow> bool \<Rightarrow> char option \<Rightarrow> string \<Rightarrow> string \<Rightarrow> mt list \<times> string" where
  "scan r n ma p s skipped =
     (case filter (\<lambda>st'. \<not> ma \<or> length (rest st') < length s)
                  (rmatch r (MState p s (replicate n None))) of
        st' # _ \<Rightarrow>
          (let k = length s - length (rest st');
               p' = (if k = 0 then p else Some (last (take k s)));
               (ms, t) = scan r n (k = 0) p' (drop k s) []
           in (Mt (rev skipped) (take k s)
                  (map (\<lambda>c. case c of None \<Rightarrow> [] | Some x \<Rightarrow> x) (caps st')) # ms, t))
      | [] \<Rightarrow>
          (case s of
             [] \<Rightarrow> ([], rev skipped)
           | c # s' \<Rightarrow> scan r n False (Some c) s' (c # skipped)))"
  by pat_completeness auto
termination
  apply (relation "measures [\<lambda>(r, n, ma, p, s, skipped). length s,
                             \<lambda>(r, n, ma, p, s, skipped). if ma then 0 else 1]")
    apply simp
   apply (auto simp: filter_eq_Cons_iff)
  done

declare scan.simps [simp del]

definition re_matches :: "rx \<Rightarrow> string \<Rightarrow> mt list" where
  "re_matches r s = fst (scan r (ngroups r) False None s [])"

text \<open>
  \<^verbatim>\<open>re.findall\<close> returns the matched texts for a pattern without groups, the texts
  of the group for a pattern with one group, and tuples of the groups otherwise.
\<close>

datatype fitem = FStr string | FTup "string list"

definition findall_item :: "nat \<Rightarrow> mt \<Rightarrow> fitem" where
  "findall_item n m =
     (if n = 0 then FStr (whole m)
      else if n = 1 then (case groups m of [] \<Rightarrow> FStr [] | g # _ \<Rightarrow> FStr g)
      else FTup (groups m))"

definition re_findall :: "rx \<Rightarrow> string \<Rightarrow> fitem list" where
  "re_findall r s = map (findall_item (ngroups r)) (re_matches r s)"

text \<open>\<^verbatim>\<open>re.search\<close>: the first match, if any.\<close>

definition re_search :: "rx \<Rightarrow> string \<Rightarrow> mt option" where
  "re_search r s = (case re_matches r s of [] \<Rightarrow> None | m # _ \<Rightarrow> Some m)"

text \<open>\<^verbatim>\<open>m.group(1)\<close> of a match of a pattern with a group.\<close>

definition group1 :: "mt \<Rightarrow> string" where
  "group1 m = (case groups m of [] \<Rightarrow> [] | g # _ \<Rightarrow> g)"

text \<open>Two matcher states at the same position of the text.\<close>

definition same_pos :: "mstate \<Rightarrow> mstate \<Rightarrow> bool" where
  "same_pos x y = (prev x = prev y \<and> rest x = rest y)"

text \<open>\<^verbatim>\<open>re.sub\<close> with a replacement text that has no group references.\<close>

definition re_sub :: "rx \<Rightarrow> string \<Rightarrow> string \<Rightarrow> string" where
  "re_sub r repl s =
     (case scan r (ngroups r) False None s [] of
        (ms, t) \<Rightarrow> concat (map (\<lambda>m. pre m @ repl) ms) @ t)"

text \<open>
  \<^verbatim>\<open>str(m)\<close> of a \<^verbatim>\<open>findall\<close> item, as an f-string formats it.  A tuple prints
  the \<^verbatim>\<open>repr\<close> of its members; the only pattern with two groups captures capital
  letters, for which \<^verbatim>\<open>repr\<close> is the text between single quotes.
\<close>

definition py_str :: "fitem \<Rightarrow> string" where
  "py_str m =
     (case m of
        FStr s \<Rightarrow> s
      | FTup gs \<Rightarrow> ''('' @ py_join '', '' (map (\<lambda>g. [CHR 0x27] @ g @ [CHR 0x27]) gs) @ '')'')"

subsection \<open>Pattern building blocks\<close>

definition lits :: "string \<Rightarrow> rx" where
  "lits s = foldr (\<lambda>c r. RSeq (RChr c) r) s REps"

definition seqs :: "rx list \<Rightarrow> rx" where
  "seqs rs = foldr RSeq rs REps"

definition alts :: "rx list \<Rightarrow> rx" where
  "alts rs = (case rs of [] \<Rightarrow> REps | _ \<Rightarrow> foldr RAlt (butlast rs) (last rs))"

text \<open>\<^verbatim>\<open>[A-Z]\<close>, \<^verbatim>\<open>\d\<close>, \<^verbatim>\<open>\s\<close>, \<^verbatim>\<open>\s+\<close>, \<^verbatim>\<open>\.\<close>\<close>

definition upper :: rx where
  "upper = RSet False [Range (CHR ''A'') (CHR ''Z'')]"

definition digit :: rx where
  "digit = RSet False [Digit]"

definition space :: rx where
  "space = RSet False [Space]"

definition spaces1 :: rx where
  "spaces1 = RRep 1 None True space"

definition dot :: rx where
  "dot = RChr (CHR ''.'')"

text \<open>\<^verbatim>\<open>\d{n}\<close>\<close>

definition digits :: "nat \<Rightarrow> rx" where
  "digits n = RRep n (Some n) True digit"

text \<open>\<^verbatim>\<open>(?:\s+NIGHT)?\<close>\<close>

definition opt_night :: rx where
  "opt_night = RRep 0 (Some 1) True (seqs [spaces1, lits ''NIGHT''])"

text \<open>\<^verbatim>\<open>\d{4}-\d{2}-\d{2}T\d{2}:\d{2}:\d{2}-08:00\<close>\<close>

definition timestamp_pattern :: rx where
  "timestamp_pattern = seqs
     [digits 4, lits ''-'', digits 2, lits ''-'', digits 2, lits ''T'',
      digits 2, lits '':'', digits 2, lits '':'', digits 2, lits ''-08:00'']"

section \<open>ForecastCorruptionDetector\<close>

text \<open>The pattern tables of \<^verbatim>\<open>__init__\<close>, matched with MULTILINE and DOTALL.\<close>

definition lazy_any :: rx where
  "lazy_any = RRep 0 None False RAny"

definition nws_patterns :: "(rx \<times> string) list" where
  "nws_patterns =
     [(seqs [digits 3, spaces1, lits ''FZUS'', RRep 1 None True digit, lazy_any, lits ''RRA''],
       ''NWS_PRODUCT_CODE''),
      (lits ''CWFLOX'', ''NWS_PRODUCT_NAME''),
      (seqs [lits ''Coastal Waters Forecast'', lazy_any, lits ''DELAYED''], ''NWS_HEADER''),
      (seqs [lits ''National Weather Service'', lazy_any, lits ''CA''], ''NWS_ATTRIBUTION''),
      (seqs [lits ''Point'', lazy_any, lits ''out '', RRep 1 None True digit, lits '' NM'',
             lazy_any, lits ''Sanctuary''], ''NWS_AREA_DESCRIPTION''),
      (seqs [lits ''PZZ'', RRep 1 None True digit, lits ''-'', RRep 1 None True digit, lits ''-''],
       ''NWS_ZONE_CODE''),
      (seqs [dot, lits ''Synopsis'', lazy_any, lits ''National Park'', lazy_any, dot],
       ''NWS_SYNOPSIS''),
      (seqs [RBolM, digits 3, REolM], ''STANDALONE_NUMBER''),
      (seqs [RBolM, timestamp_pattern, REolM], ''EMBEDDED_TIMESTAMP'')]"

text \<open>
  Matched with MULTILINE.  The third pattern is
  \<^verbatim>\<open>r'\.([A-Z]{3,7}(?:\s+NIGHT)?)\\.(?!\.)'\<close>: in the raw string,
  \<^verbatim>\<open>\\\<close> is a literal backslash and the \<^verbatim>\<open>.\<close> after it is any character
  but a newline.
\<close>

definition truncated_patterns :: "(rx \<times> string) list" where
  "truncated_patterns =
     [(seqs [dot, RGrp 1 (RRep 1 (Some 2) True upper), opt_night, RRep 0 None True space, REolM],
       ''TRUNCATED_PERIOD''),
      (seqs [dot, RGrp 1 (seqs [RRep 3 (Some 7) True upper, opt_night]), dot, dot, RNotAhead dot],
       ''INCOMPLETE_DOTS''),
      (seqs [dot, RGrp 1 (seqs [RRep 3 (Some 7) True upper, opt_night]), RChr (CHR 0x5C), RNoNl,
             RNotAhead dot],
       ''MISSING_DOTS'')]"

text \<open>
  The third pattern as \<^verbatim>\<open>scripts/analysis/diagnose_corrupted_forecasts.py\<close> has
  it, \<^verbatim>\<open>r'\.([A-Z]{3,7}(?:\s+NIGHT)?)\.(?!\.)'\<close>: a single dot after the name.
\<close>

definition missing_dots_sibling :: rx where
  "missing_dots_sibling =
     seqs [dot, RGrp 1 (seqs [RRep 3 (Some 7) True upper, opt_night]), dot, RNotAhead dot]"

definition full_day_names :: rx where
  "full_day_names = alts [lits ''MONDAY'', lits ''TUESDAY'', lits ''WEDNESDAY'', lits ''THURSDAY'',
                          lits ''FRIDAY'', lits ''SATURDAY'', lits ''SUNDAY'']"

definition anomalous_patterns :: "(rx \<times> string) list" where
  "anomalous_patterns =
     [(seqs [dot, RGrp 1 (RRep 3 (Some 3) True upper), spaces1, lits ''THROUGH'', spaces1,
             RGrp 2 (RRep 3 (Some 3) True upper), dot, dot, dot],
       ''MULTI_DAY_RANGE''),
      (seqs [dot, RGrp 1 full_day_names, dot, dot, dot], ''FULL_DAY_NAME''),
      (seqs [dot, RGrp 1 full_day_names, spaces1, lits ''NIGHT'', dot, dot, dot],
       ''FULL_DAY_NIGHT_NAME'')]"

definition non_weather_keywords :: "string list" where
  "non_weather_keywords =
     [''high pressure center was located'',
      ''thermal low was over'',
      ''pattern will not change'',
      ''including the Channel Islands'',
      ''out 60 NM'',
      ''National Marine Sanctuary'']"

text \<open>
  \<^verbatim>\<open>r'\.([A-Z]{3,7}(?:\s+NIGHT)?)\.\.\.?(.*?)(?=\n\.[A-Z]{3,7}(?:\s+NIGHT)?\.\.\.?|\Z)'\<close>,
  matched with DOTALL.
\<close>

definition detector_period_pattern :: rx where
  "detector_period_pattern = seqs
     [dot, RGrp 1 (seqs [RRep 3 (Some 7) True upper, opt_night]), dot, dot, RRep 0 (Some 1) True dot,
      RGrp 2 lazy_any,
      RAhead (alts [seqs [RChr newline, dot, RRep 3 (Some 7) True upper, opt_night, dot, dot,
                          RRep 0 (Some 1) True dot],
                    REndZ])]"

record corruption_indicators =
  has_corruption :: bool
  corruption_types :: "string list"
  corruption_details :: "string list"

text \<open>
  The body of the loop over \<^verbatim>\<open>nws_patterns\<close>, and of the loops over
  \<^verbatim>\<open>truncated_patterns\<close> and \<^verbatim>\<open>anomalous_patterns\<close>; the details hold
  the \<^verbatim>\<open>str\<close> of each entry, as the report writes them.
\<close>

definition check_nws :: "string \<Rightarrow> corruption_indicators \<Rightarrow> rx \<times> string \<Rightarrow> corruption_indicators" where
  "check_nws forecast_content ci pc =
     (case pc of (pattern, corruption_type) \<Rightarrow>
        (let matches = re_findall pattern forecast_content
         in if matches \<noteq> [] then
              ci\<lparr>has_corruption := True,
                 corruption_types := corruption_types ci @ [corruption_type],
                 corruption_details := corruption_details ci @ map py_str (take 3 matches)\<rparr>
            else ci))"

definition check_dotted :: "string \<Rightarrow> corruption_indicators \<Rightarrow> rx \<times> string \<Rightarrow> corruption_indicators" where
  "check_dotted forecast_content ci pc =
     (case pc of (pattern, corruption_type) \<Rightarrow>
        (let matches = re_findall pattern forecast_content
         in if matches \<noteq> [] then
              ci\<lparr>has_corruption := True,
                 corruption_types := corruption_types ci @ [corruption_type],
                 corruption_details :=
                   corruption_details ci @ map (\<lambda>m. ''.'' @ py_str m) (take 3 matches)\<rparr>
            else ci))"

text \<open>The periods found by the detector: \<^verbatim>\<open>(period_name, period_content)\<close> pairs.\<close>

definition detector_periods :: "string \<Rightarrow> (string \<times> string) list" where
  "detector_periods forecast_content =
     map (\<lambda>m. case groups m of [] \<Rightarrow> ([], []) | [a] \<Rightarrow> (a, []) | a # b # _ \<Rightarrow> (a, b))
         (re_matches detector_period_pattern forecast_content)"

definition check_long :: "corruption_indicators \<Rightarrow> string \<times> string \<Rightarrow> corruption_indicators" where
  "check_long ci period =
     (case period of (period_name, period_content) \<Rightarrow>
        (let content_length = length (py_strip period_content)
         in if content_length > 1000 then
              ci\<lparr>has_corruption := True,
                 corruption_types := corruption_types ci @ [''ABNORMALLY_LONG_PERIOD''],
                 corruption_details :=
                   corruption_details ci @ [''.'' @ period_name @ '': '' @ str_nat content_length @ '' chars'']\<rparr>
            else ci))"

definition check_timestamps :: "string \<Rightarrow> corruption_indicators \<Rightarrow> corruption_indicators" where
  "check_timestamps forecast_content ci =
     (let timestamp_matches = re_findall timestamp_pattern forecast_content
      in if length timestamp_matches > 0 then
           ci\<lparr>has_corruption := True,
              corruption_types := corruption_types ci @ [''EMBEDDED_TIMESTAMPS''],
              corruption_details := corruption_details ci @ map py_str (take 2 timestamp_matches)\<rparr>
         else ci)"

definition check_keyword :: "string \<Rightarrow> corruption_indicators \<Rightarrow> string \<Rightarrow> corruption_indicators" where
  "check_keyword forecast_content ci keyword =
     (if contains (py_lower forecast_content) (py_lower keyword) then
        ci\<lparr>has_corruption := True,
           corruption_types :=
             (if ''NON_WEATHER_CONTENT'' \<notin> set (corruption_types ci)
              then corruption_types ci @ [''NON_WEATHER_CONTENT''] else corruption_types ci),
           corruption_details := corruption_details ci @ [keyword]\<rparr>
      else ci)"

definition check_short :: "corruption_indicators \<Rightarrow> string \<times> string \<Rightarrow> corruption_indicators" where
  "check_short ci period =
     (case period of (period_name, period_content) \<Rightarrow>
        (let clean_content = py_strip period_content
         in if length clean_content < 10 then
              ci\<lparr>has_corruption := True,
                 corruption_types :=
                   (if ''EXTREMELY_SHORT_PERIOD'' \<notin> set (corruption_types ci)
                    then corruption_types ci @ [''EXTREMELY_SHORT_PERIOD''] else corruption_types ci),
                 corruption_details :=
                   corruption_details ci @ [''.'' @ period_name @ '': '' @ [CHR 0x27] @ clean_content @ [CHR 0x27]]\<rparr>
            else ci))"

definition detect_corruption_patterns :: "string \<Rightarrow> corruption_indicators" where
  "detect_corruption_patterns forecast_content =
     (let ci0 = \<lparr>has_corruption = False, corruption_types = [], corruption_details = []\<rparr>;
          ci1 = foldl (check_nws forecast_content) ci0 nws_patterns;
          ci2 = foldl (check_dotted forecast_content) ci1 truncated_patterns;
          ci3 = foldl (check_dotted forecast_content) ci2 anomalous_patterns;
          periods = detector_periods forecast_content;
          ci4 = foldl check_long ci3 periods;
          ci5 = check_timestamps forecast_content ci4;
          ci6 = foldl (check_keyword forecast_content) ci5 non_weather_keywords;
          ci7 = (if length periods > 0 then foldl check_short ci6 periods else ci6)
      in ci7)"

text \<open>
  What the checks find in a content: the patterns of a table that match, the periods with
  more than 1000 characters and with fewer than 10, and the keywords it contains.
\<close>

definition matched :: "string \<Rightarrow> (rx \<times> string) list \<Rightarrow> (rx \<times> string) list" where
  "matched s table = filter (\<lambda>pc. re_findall (fst pc) s \<noteq> []) table"

definition long_periods :: "string \<Rightarrow> (string \<times> string) list" where
  "long_periods s = filter (\<lambda>p. 1000 < length (py_strip (snd p))) (detector_periods s)"

definition short_periods :: "string \<Rightarrow> (string \<times> string) list" where
  "short_periods s = filter (\<lambda>p. length (py_strip (snd p)) < 10) (detector_periods s)"

definition matched_keywords :: "string \<Rightarrow> string list" where
  "matched_keywords s = filter (\<lambda>k. contains (py_lower s) (py_lower k)) non_weather_keywords"

section \<open>Dates\<close>

text \<open>
  \<^verbatim>\<open>datetime.date\<close> and \<^verbatim>\<open>datetime.datetime\<close> values; the years of a date
  are 1 to 9999.
\<close>

record date =
  year :: nat
  month :: nat
  day :: nat

record datetime =
  dt_date :: date
  hour :: nat
  minute :: nat
  second :: nat

datatype py_error = OverflowError

definition is_leap :: "nat \<Rightarrow> bool" where
  "is_leap y = (y mod 4 = 0 \<and> (y mod 100 \<noteq> 0 \<or> y mod 400 = 0))"

definition days_in_month :: "nat \<Rightarrow> nat \<Rightarrow> nat" where
  "days_in_month y m =
     (if m = 2 then (if is_leap y then 29 else 28)
      else if m = 4 \<or> m = 6 \<or> m = 9 \<or> m = 11 then 30 else 31)"

definition valid_date :: "date \<Rightarrow> bool" where
  "valid_date d = (1 \<le> year d \<and> year d \<le> 9999 \<and> 1 \<le> month d \<and> month d \<le> 12 \<and>
                   1 \<le> day d \<and> day d \<le> days_in_month (year d) (month d))"

text \<open>The day after a date; there is none after 9999-12-31.\<close>

definition next_day :: "date \<Rightarrow> py_error + date" where
  "next_day d =
     (if day d < days_in_month (year d) (month d) then Inr (d\<lparr>day := day d + 1\<rparr>)
      else if month d < 12 then Inr (d\<lparr>month := month d + 1, day := 1\<rparr>)
      else if year d < 9999 then Inr \<lparr>year = year d + 1, month = 1, day = 1\<rparr>
      else Inl OverflowError)"

text \<open>
  \<^verbatim>\<open>d + timedelta(days=n)\<close>: the date \<open>n\<close> days after \<open>d\<close>, or
  \<^verbatim>\<open>OverflowError\<close> when that is after 9999-12-31.
\<close>

fun add_days :: "date \<Rightarrow> nat \<Rightarrow> py_error + date" where
  "add_days d 0 = Inr d"
| "add_days d (Suc n) = (case next_day d of Inl e \<Rightarrow> Inl e | Inr d' \<Rightarrow> add_days d' n)"

text \<open>Dates compare as (year, month, day).\<close>

definition date_le :: "date \<Rightarrow> date \<Rightarrow> bool" where
  "date_le a b =
     (year a < year b \<or> (year a = year b \<and> (month a < month b \<or> (month a = month b \<and> day a \<le> day b))))"

text \<open>\<^verbatim>\<open>str(d)\<close>: YYYY-MM-DD\<close>

definition str_date :: "date \<Rightarrow> string" where
  "str_date d = zero_pad 4 (year d) @ ''-'' @ zero_pad 2 (month d) @ ''-'' @ zero_pad 2 (day d)"

section \<open>ForecastPeriodConverter\<close>

text \<open>
  \<^verbatim>\<open>datetime.fromisoformat\<close> on the texts the timestamp pattern yields
  (YYYY-MM-DDTHH:MM:SS); \<open>None\<close> is its \<^verbatim>\<open>ValueError\<close>.  The callers pass no
  other text.
\<close>

definition fromisoformat :: "string \<Rightarrow> datetime option" where
  "fromisoformat t =
     (if length t = 19 \<and> list_all is_digit (take 4 t) \<and> t ! 4 = CHR ''-''
         \<and> list_all is_digit (take 2 (drop 5 t)) \<and> t ! 7 = CHR ''-''
         \<and> list_all is_digit (take 2 (drop 8 t)) \<and> t ! 10 = CHR ''T''
         \<and> list_all is_digit (take 2 (drop 11 t)) \<and> t ! 13 = CHR '':''
         \<and> list_all is_digit (take 2 (drop 14 t)) \<and> t ! 16 = CHR '':''
         \<and> list_all is_digit (take 2 (drop 17 t))
      then
        (let d = \<lparr>year = int_of_digits (take 4 t),
                  month = int_of_digits (take 2 (drop 5 t)),
                  day = int_of_digits (take 2 (drop 8 t))\<rparr>;
             h = int_of_digits (take 2 (drop 11 t));
             mi = int_of_digits (take 2 (drop 14 t));
             s = int_of_digits (take 2 (drop 17 t))
         in if valid_date d \<and> h \<le> 23 \<and> mi \<le> 59 \<and> s \<le> 59
            then Some \<lparr>dt_date = d, hour = h, minute = mi, second = s\<rparr> else None)
      else None)"

definition parse_forecast_timestamp :: "string \<Rightarrow> datetime option" where
  "parse_forecast_timestamp timestamp_str =
     fromisoformat (if endswith timestamp_str ''-08:00''
                    then take (length timestamp_str - 6) timestamp_str else timestamp_str)"

text \<open>\<^verbatim>\<open>r'^\.\.\.([^.]*?)\.\.\.(?: \n|$)'\<close>, matched with MULTILINE.\<close>

definition warning_pattern :: rx where
  "warning_pattern = seqs
     [RBolM, dot, dot, dot, RGrp 1 (RRep 0 None False (RSet True [One (CHR ''.'')])), dot, dot, dot,
      alts [seqs [RChr (CHR '' ''), RChr newline], REolM]]"

text \<open>\<^verbatim>\<open>re.sub(r'\s+', ' ', s)\<close>\<close>

definition collapse_spaces :: "string \<Rightarrow> string" where
  "collapse_spaces s = re_sub spaces1 '' '' s"

definition extract_warnings :: "string \<Rightarrow> string option \<times> string" where
  "extract_warnings forecast_text =
     (let warning_matches = re_findall warning_pattern forecast_text
      in if warning_matches = [] then (None, forecast_text)
         else
           (let combined_warnings = map (\<lambda>warning. collapse_spaces (py_strip (py_str warning))) warning_matches;
                warning_paragraph = ''WARNING: '' @ py_join ''; '' combined_warnings;
                clean_content = re_sub warning_pattern [] forecast_text;
                clean_content = py_strip (re_sub (seqs [RChr newline, RRep 0 None True space, RChr newline])
                                                 [newline, newline] clean_content)
            in (Some warning_paragraph, clean_content)))"

text \<open>
  The header of a period,
  \<^verbatim>\<open>\.((REST\s+OF\s+[A-Z]+)|(THIS\s+AFTERNOON)|([A-Z]{3,7}(?:\s+NIGHT)?))\.\.\.?\<close>,
  with its four groups numbered from \<open>g\<close>; the period pattern has it twice.
\<close>

definition period_header :: "nat \<Rightarrow> rx" where
  "period_header g = seqs
     [dot,
      RGrp g (alts [RGrp (g + 1) (seqs [lits ''REST'', spaces1, lits ''OF'', spaces1, RRep 1 None True upper]),
                    RGrp (g + 2) (seqs [lits ''THIS'', spaces1, lits ''AFTERNOON'']),
                    RGrp (g + 3) (seqs [RRep 3 (Some 7) True upper, opt_night])]),
      dot, dot, RRep 0 (Some 1) True dot]"

text \<open>The period pattern of \<^verbatim>\<open>convert_forecast_periods\<close>, matched with DOTALL.\<close>

definition period_pattern :: rx where
  "period_pattern = seqs
     [period_header 1, RGrp 5 lazy_any,
      RAhead (alts [seqs [RChr newline, period_header 6], REndZ])]"

text \<open>
  The period header as sections 3 and 6 of the specification word it, for comparison with
  the header of the code: a dot, a token of the fixed vocabulary (TODAY, TONIGHT,
  REST OF TODAY, REST OF TONIGHT, THIS AFTERNOON, a three-letter weekday code, or a
  three-letter weekday code followed by \<^verbatim>\<open>" NIGHT"\<close>), then two or three dots.
\<close>

definition spec_weekday_code :: rx where
  "spec_weekday_code = alts [lits ''MON'', lits ''TUE'', lits ''WED'', lits ''THU'', lits ''FRI'',
                             lits ''SAT'', lits ''SUN'']"

definition spec_vocabulary_header :: rx where
  "spec_vocabulary_header = seqs
     [dot,
      alts [lits ''TODAY'', lits ''TONIGHT'', lits ''REST OF TODAY'', lits ''REST OF TONIGHT'',
            lits ''THIS AFTERNOON'', seqs [spec_weekday_code, lits '' NIGHT''], spec_weekday_code],
      dot, dot, RRep 0 (Some 1) True dot]"

text \<open>
  The first loop of \<^verbatim>\<open>convert_forecast_periods\<close>: the name and the content of each
  match; \<open>match[1]\<close>, \<open>match[2]\<close>, \<open>match[3]\<close>, \<open>match[4]\<close> are the groups 2 to 5.
  A match of the period pattern has nine groups, so the first test never holds for one.
\<close>

fun processed_periods :: "mt list \<Rightarrow> (string \<times> string) list" where
  "processed_periods [] = []"
| "processed_periods (m # ms) =
     (let g = groups m in
      if length g < 5 then processed_periods ms
      else if g ! 1 \<noteq> [] then (g ! 1, g ! 4) # processed_periods ms
      else if g ! 2 \<noteq> [] then (g ! 2, g ! 4) # processed_periods ms
      else if g ! 3 \<noteq> [] then (g ! 3, g ! 4) # processed_periods ms
      else processed_periods ms)"

text \<open>One period of the output: the label \<open>D{offset}_DAY\<close> or \<open>D{offset}_NIGHT\<close>, the
  target date and the cleaned content.\<close>

record labeled_period =
  lp_night :: bool
  lp_offset :: nat
  lp_date :: date
  lp_content :: string

text \<open>
  The branches of the second loop for a period at offset \<open>off\<close>: whether its label is a
  night label, and the offset after it.  \<open>next_name\<close> is the name of the period that
  follows, if there is one.
\<close>

definition period_step :: "nat \<Rightarrow> string \<Rightarrow> string option \<Rightarrow> bool \<times> nat" where
  "period_step off period_name next_name =
     (if period_name = ''REST OF TODAY'' then (False, off)
      else if period_name = ''REST OF TONIGHT'' then (True, off + 1)
      else if period_name = ''THIS AFTERNOON'' then (False, off)
      else if period_name = ''TONIGHT'' then (True, off + 1)
      else if period_name = ''TODAY'' then (False, off)
      else if endswith period_name '' NIGHT'' then (True, off + 1)
      else (False,
            (case next_name of
               None \<Rightarrow> off
             | Some next_period_name \<Rightarrow>
                 if \<not> endswith next_period_name '' NIGHT'' \<and>
                    next_period_name \<notin> set [''TONIGHT'', ''TODAY'', ''REST OF TONIGHT'', ''THIS AFTERNOON'']
                 then off + 1 else off)))"

definition clean_content :: "string \<Rightarrow> string" where
  "clean_content period_content =
     py_replace ''Wave Detail:'' ''Waves:'' (collapse_spaces (py_strip period_content))"

text \<open>The second loop, from offset \<open>off\<close>; the addition of the days can overflow.\<close>

fun map_periods :: "date \<Rightarrow> nat \<Rightarrow> (string \<times> string) list \<Rightarrow> py_error + labeled_period list" where
  "map_periods forecast_date off [] = Inr []"
| "map_periods forecast_date off ((period_name, period_content) # ps) =
     (case (if off > 0 then add_days forecast_date off else Inr forecast_date) of
        Inl e \<Rightarrow> Inl e
      | Inr target_date \<Rightarrow>
          (case period_step off period_name (case ps of [] \<Rightarrow> None | (n, _) # _ \<Rightarrow> Some n) of
             (night, off') \<Rightarrow>
               (case map_periods forecast_date off' ps of
                  Inl e \<Rightarrow> Inl e
                | Inr out \<Rightarrow>
                    Inr (\<lparr>lp_night = night, lp_offset = off, lp_date = target_date,
                          lp_content = clean_content period_content\<rparr> # out))))"

text \<open>\<^verbatim>\<open>f'{relative_label} ({target_date}) {collapsed_content}'\<close>\<close>

definition render_period :: "labeled_period \<Rightarrow> string" where
  "render_period lp =
     ''D'' @ str_nat (lp_offset lp) @ (if lp_night lp then ''_NIGHT'' else ''_DAY'')
       @ '' ('' @ str_date (lp_date lp) @ '') '' @ lp_content lp"

definition convert_forecast_periods :: "string \<Rightarrow> datetime \<Rightarrow> py_error + string" where
  "convert_forecast_periods forecast_text forecast_time =
     (let periods = re_matches period_pattern forecast_text
      in if periods = [] then Inr forecast_text
         else
           (let forecast_date = dt_date forecast_time;
                issue_hour = hour forecast_time;
                current_day_offset = (if issue_hour < 6 then 0 else 0)
            in case map_periods forecast_date current_day_offset (processed_periods periods) of
                 Inl e \<Rightarrow> Inl e
               | Inr converted_periods \<Rightarrow> Inr (py_join [newline] (map render_period converted_periods))))"

section \<open>NWSForecastProcessor\<close>

record corrupted_forecast =
  cf_timestamp :: string
  cf_corruption_types :: "string list"
  cf_corruption_details :: "string list"
  cf_content_preview :: string

text \<open>
  \<^verbatim>\<open>block[block.find(timestamp) + len(timestamp):].strip()\<close>: the forecast content
  after the timestamp.
\<close>

definition content_after :: "string \<Rightarrow> string \<Rightarrow> string" where
  "content_after block timestamp =
     (let timestamp_pos = py_find block timestamp;
          timestamp_end = timestamp_pos + int (length timestamp)
      in py_strip (slice_from block timestamp_end))"

text \<open>
  The body of the loop of \<^verbatim>\<open>analyze_forecast_file\<close>; its pattern is the timestamp
  pattern in a group, and the timestamp is \<^verbatim>\<open>group(1)\<close>.
\<close>

definition analyze_block :: "corrupted_forecast list \<Rightarrow> string \<Rightarrow> corrupted_forecast list" where
  "analyze_block corrupted_forecasts raw_block =
     (let block = py_strip raw_block in
      if block = [] then corrupted_forecasts
      else
        (case re_search (RGrp 1 timestamp_pattern) block of
           None \<Rightarrow> corrupted_forecasts
         | Some timestamp_match \<Rightarrow>
             (let timestamp = group1 timestamp_match;
                  forecast_content = content_after block timestamp
              in if forecast_content \<noteq> [] then
                   (let corruption_info = detect_corruption_patterns forecast_content
                    in if has_corruption corruption_info then
                         corrupted_forecasts @
                           [\<lparr>cf_timestamp = timestamp,
                             cf_corruption_types = corruption_types corruption_info,
                             cf_corruption_details = corruption_details corruption_info,
                             cf_content_preview =
                               (if length forecast_content > 200 then take 200 forecast_content @ ''...''
                                else forecast_content)\<rparr>]
                       else corrupted_forecasts)
                 else corrupted_forecasts)))"

definition analyze_forecast_file :: "string \<Rightarrow> corrupted_forecast list \<Rightarrow> corrupted_forecast list" where
  "analyze_forecast_file content corrupted_forecasts =
     foldl analyze_block corrupted_forecasts (split_dollars content)"

text \<open>
  A block that the analysis records: it has a timestamp, a content after it, and the
  detector finds corruption in that content.
\<close>

definition flagged :: "string \<Rightarrow> bool" where
  "flagged raw_block =
     (let block = py_strip raw_block in
      block \<noteq> [] \<and>
      (case re_search (RGrp 1 timestamp_pattern) block of
         None \<Rightarrow> False
       | Some timestamp_match \<Rightarrow>
           (let forecast_content =
                  content_after block (group1 timestamp_match)
            in forecast_content \<noteq> [] \<and> has_corruption (detect_corruption_patterns forecast_content))))"

record process_state =
  converted_blocks :: "string list"
  processed_count :: nat
  error_count :: nat

text \<open>The body of the loop of \<^verbatim>\<open>process_forecast_file\<close>.\<close>

definition process_block :: "string list \<Rightarrow> process_state \<Rightarrow> string \<Rightarrow> py_error + process_state" where
  "process_block corrupted_timestamps ps raw_block =
     (let block = py_strip raw_block in
      if block = [] then Inr (ps\<lparr>converted_blocks := converted_blocks ps @ [[]]\<rparr>)
      else
        (case re_search timestamp_pattern block of
           None \<Rightarrow> Inr (ps\<lparr>converted_blocks := converted_blocks ps @ [block]\<rparr>)
         | Some timestamp_match \<Rightarrow>
             (let timestamp_str = whole timestamp_match in
              if timestamp_str \<in> set corrupted_timestamps then Inr ps
              else
                (case parse_forecast_timestamp timestamp_str of
                   None \<Rightarrow>
                     Inr (ps\<lparr>converted_blocks := converted_blocks ps @ [block],
                             error_count := error_count ps + 1\<rparr>)
                 | Some forecast_time \<Rightarrow>
                     (let forecast_content = content_after block timestamp_str in
                      if forecast_content \<noteq> [] then
                        (let issued_line = ''Issued: '' @ timestamp_str @ [newline, newline] in
                         case extract_warnings forecast_content of
                           (warnings, clean_text) \<Rightarrow>
                             (case convert_forecast_periods clean_text forecast_time of
                                Inl e \<Rightarrow> Inl e
                              | Inr converted_content \<Rightarrow>
                                  (let converted_block =
                                         (case warnings of
                                            None \<Rightarrow> issued_line @ converted_content
                                          | Some w \<Rightarrow>
                                              if w \<noteq> [] then issued_line @ w @ [newline, newline] @ converted_content
                                              else issued_line @ converted_content)
                                   in Inr (ps\<lparr>converted_blocks := converted_blocks ps @ [converted_block],
                                              processed_count := processed_count ps + 1\<rparr>))))
                      else Inr ps)))))"

fun process_blocks :: "string list \<Rightarrow> process_state \<Rightarrow> string list \<Rightarrow> py_error + process_state" where
  "process_blocks corrupted_timestamps ps [] = Inr ps"
| "process_blocks corrupted_timestamps ps (b # bs) =
     (case process_block corrupted_timestamps ps b of
        Inl e \<Rightarrow> Inl e
      | Inr ps' \<Rightarrow> process_blocks corrupted_timestamps ps' bs)"

text \<open>What the final loop writes to the output file: block \<open>i\<close> of \<open>n\<close> blocks.\<close>

fun write_blocks :: "nat \<Rightarrow> nat \<Rightarrow> string list \<Rightarrow> string" where
  "write_blocks i n [] = []"
| "write_blocks i n (block # blocks) =
     (if py_strip block \<noteq> []
      then block @ (if int i < int n - 1 then [newline, newline] @ ''$$'' @ [newline, newline] else [])
      else [])
     @ write_blocks (Suc i) n blocks"

record process_result =
  output_text :: string
  res_processed_count :: nat
  res_error_count :: nat
  res_skipped_count :: nat

text \<open>The set of the corrupted timestamps, as a list without duplicates.\<close>

definition corrupted_timestamps_of :: "corrupted_forecast list \<Rightarrow> string list" where
  "corrupted_timestamps_of corrupted_forecasts = remdups (map cf_timestamp corrupted_forecasts)"

definition process_forecast_file :: "string \<Rightarrow> corrupted_forecast list \<Rightarrow> py_error + process_result" where
  "process_forecast_file content corrupted_forecasts =
     (let forecast_blocks = split_dollars content;
          corrupted_timestamps = corrupted_timestamps_of corrupted_forecasts
      in case process_blocks corrupted_timestamps
                \<lparr>converted_blocks = [], processed_count = 0, error_count = 0\<rparr> forecast_blocks of
           Inl e \<Rightarrow> Inl e
         | Inr ps \<Rightarrow>
             Inr \<lparr>output_text = write_blocks 0 (length (converted_blocks ps)) (converted_blocks ps),
                  res_processed_count = processed_count ps,
                  res_error_count = error_count ps,
                  res_skipped_count = length corrupted_timestamps\<rparr>)"

text \<open>
  The first step of \<^verbatim>\<open>process\<close>: the analysis, from an empty list of corrupted
  forecasts, and (when the list is not empty) the report, which sorts the list by
  timestamp.
\<close>

definition analyzed :: "string \<Rightarrow> corrupted_forecast list" where
  "analyzed content =
     (let corrupted_forecasts = analyze_forecast_file content []
      in if corrupted_forecasts \<noteq> [] then sort_key cf_timestamp corrupted_forecasts
         else corrupted_forecasts)"

text \<open>\<^verbatim>\<open>process\<close>: the first step, then the conversion of the same content.\<close>

definition process :: "string \<Rightarrow> py_error + process_result" where
  "process content = process_forecast_file content (analyzed content)"

section \<open>The day offsets of the mapper\<close>

lemma period_step_bounds:
  "period_step off n nx = (night, off') \<Longrightarrow> off \<le> off' \<and> off' \<le> off + 1"
  by (auto simp: period_step_def split: if_splits option.splits)

lemma map_periods_hd:
  "map_periods d off ps = Inr out \<Longrightarrow> out \<noteq> [] \<Longrightarrow> lp_offset (hd out) = off"
  by (cases ps) (auto split: sum.splits prod.splits if_splits)

lemma map_periods_step:
  "map_periods d off ps = Inr out \<Longrightarrow>
   (\<forall>i. Suc i < length out \<longrightarrow> lp_offset (out ! i) \<le> lp_offset (out ! Suc i)
        \<and> lp_offset (out ! Suc i) \<le> lp_offset (out ! i) + 1)"
proof (induction ps arbitrary: off out)
  case Nil
  then show ?case by simp
next
  case (Cons p ps)
  obtain name content where p: "p = (name, content)" by (cases p)
  from Cons.prems p obtain td night off' out' where
    st: "period_step off name (case ps of [] \<Rightarrow> None | (n, _) # _ \<Rightarrow> Some n) = (night, off')"
    and rec: "map_periods d off' ps = Inr out'"
    and out: "out = \<lparr>lp_night = night, lp_offset = off, lp_date = td,
                     lp_content = clean_content content\<rparr> # out'"
    by (auto split: sum.splits prod.splits)
  have b: "off \<le> off' \<and> off' \<le> off + 1" using st by (rule period_step_bounds)
  have ih: "\<forall>i. Suc i < length out' \<longrightarrow> lp_offset (out' ! i) \<le> lp_offset (out' ! Suc i)
        \<and> lp_offset (out' ! Suc i) \<le> lp_offset (out' ! i) + 1"
    using Cons.IH [OF rec] .
  show ?case
  proof (intro allI impI)
    fix i assume i: "Suc i < length out"
    show "lp_offset (out ! i) \<le> lp_offset (out ! Suc i) \<and> lp_offset (out ! Suc i) \<le> lp_offset (out ! i) + 1"
    proof (cases i)
      case 0
      then have "out' \<noteq> []" using i out by auto
      then have "lp_offset (hd out') = off'" using map_periods_hd [OF rec] by simp
      moreover have "out' ! 0 = hd out'" using \<open>out' \<noteq> []\<close> by (simp add: hd_conv_nth)
      ultimately show ?thesis using 0 out b by simp
    next
      case (Suc j)
      then show ?thesis using ih i out by simp
    qed
  qed
qed

lemma add_days_add:
  "add_days d (a + b) = (case add_days d a of Inl e \<Rightarrow> Inl e | Inr x \<Rightarrow> add_days x b)"
  by (induction a arbitrary: d) (auto split: sum.splits)

lemma date_le_refl: "date_le a a"
  by (simp add: date_le_def)

lemma date_le_trans: "date_le a b \<Longrightarrow> date_le b c \<Longrightarrow> date_le a c"
  by (auto simp: date_le_def)

lemma next_day_le: "next_day d = Inr d' \<Longrightarrow> date_le d d'"
  by (auto simp: next_day_def date_le_def split: if_splits)

lemma add_days_le: "add_days d n = Inr d' \<Longrightarrow> date_le d d'"
proof (induction n arbitrary: d)
  case 0
  then show ?case by (simp add: date_le_refl)
next
  case (Suc n)
  then show ?case
    by (auto split: sum.splits intro: date_le_trans dest: next_day_le)
qed

lemma add_days_mono:
  assumes "add_days d a = Inr x" "add_days d b = Inr y" "a \<le> b"
  shows "date_le x y"
proof -
  obtain k where "b = a + k" using assms(3) by (auto simp: le_iff_add)
  then have "add_days x k = Inr y" using assms(1,2) by (simp add: add_days_add)
  then show ?thesis by (rule add_days_le)
qed

lemma map_periods_dates:
  "map_periods d off ps = Inr out \<Longrightarrow> \<forall>x \<in> set out. add_days d (lp_offset x) = Inr (lp_date x)"
proof (induction ps arbitrary: off out)
  case Nil
  then show ?case by simp
next
  case (Cons p ps)
  obtain name content where p: "p = (name, content)" by (cases p)
  from Cons.prems p obtain td night off' out' where
    td: "(if off > 0 then add_days d off else Inr d) = Inr td"
    and rec: "map_periods d off' ps = Inr out'"
    and out: "out = \<lparr>lp_night = night, lp_offset = off, lp_date = td,
                     lp_content = clean_content content\<rparr> # out'"
    by (auto split: sum.splits prod.splits)
  have "add_days d off = Inr td" using td by (cases off) auto
  then show ?case using Cons.IH [OF rec] out by simp
qed

lemma map_periods_lower:
  "map_periods d off ps = Inr out \<Longrightarrow> \<forall>x \<in> set out. off \<le> lp_offset x"
proof (induction ps arbitrary: off out)
  case Nil
  then show ?case by simp
next
  case (Cons p ps)
  obtain name content where p: "p = (name, content)" by (cases p)
  from Cons.prems p obtain td night off' out' where
    st: "period_step off name (case ps of [] \<Rightarrow> None | (n, _) # _ \<Rightarrow> Some n) = (night, off')"
    and rec: "map_periods d off' ps = Inr out'"
    and out: "out = \<lparr>lp_night = night, lp_offset = off, lp_date = td,
                     lp_content = clean_content content\<rparr> # out'"
    by (auto split: sum.splits prod.splits)
  have "off \<le> off'" using period_step_bounds [OF st] by simp
  then show ?case using Cons.IH [OF rec] out by fastforce
qed

lemma map_periods_sorted:
  "map_periods d off ps = Inr out \<Longrightarrow> sorted (map lp_offset out)"
proof (induction ps arbitrary: off out)
  case Nil
  then show ?case by simp
next
  case (Cons p ps)
  obtain name content where p: "p = (name, content)" by (cases p)
  from Cons.prems p obtain td night off' out' where
    st: "period_step off name (case ps of [] \<Rightarrow> None | (n, _) # _ \<Rightarrow> Some n) = (night, off')"
    and rec: "map_periods d off' ps = Inr out'"
    and out: "out = \<lparr>lp_night = night, lp_offset = off, lp_date = td,
                     lp_content = clean_content content\<rparr> # out'"
    by (auto split: sum.splits prod.splits)
  have "off \<le> off'" using period_step_bounds [OF st] by simp
  moreover have "\<forall>x \<in> set out'. off' \<le> lp_offset x" using map_periods_lower [OF rec] .
  ultimately show ?case using Cons.IH [OF rec] out by fastforce
qed

lemma map_periods_fixed_blocks:
  "map_periods d 0 [(''TODAY'', c1), (''TONIGHT'', c2)] =
     Inr [\<lparr>lp_night = False, lp_offset = 0, lp_date = d, lp_content = clean_content c1\<rparr>,
          \<lparr>lp_night = True, lp_offset = 0, lp_date = d, lp_content = clean_content c2\<rparr>] \<and>
   (add_days d 1 = Inr d1 \<and> add_days d 2 = Inr d2 \<longrightarrow>
    map_periods d 0 [(''TODAY'', c1), (''TONIGHT'', c2), (''TUE'', c3), (''TUE NIGHT'', c4), (''WED'', c5)] =
     Inr [\<lparr>lp_night = False, lp_offset = 0, lp_date = d, lp_content = clean_content c1\<rparr>,
          \<lparr>lp_night = True, lp_offset = 0, lp_date = d, lp_content = clean_content c2\<rparr>,
          \<lparr>lp_night = False, lp_offset = 1, lp_date = d1, lp_content = clean_content c3\<rparr>,
          \<lparr>lp_night = True, lp_offset = 1, lp_date = d1, lp_content = clean_content c4\<rparr>,
          \<lparr>lp_night = False, lp_offset = 2, lp_date = d2, lp_content = clean_content c5\<rparr>])"
proof (intro conjI impI)
  show "map_periods d 0 [(''TODAY'', c1), (''TONIGHT'', c2)] =
     Inr [\<lparr>lp_night = False, lp_offset = 0, lp_date = d, lp_content = clean_content c1\<rparr>,
          \<lparr>lp_night = True, lp_offset = 0, lp_date = d, lp_content = clean_content c2\<rparr>]"
    by (simp add: period_step_def endswith_def)
next
  assume a: "add_days d 1 = Inr d1 \<and> add_days d 2 = Inr d2"
  have a1: "add_days d (Suc 0) = Inr d1" using a by simp
  have a2: "add_days d (Suc (Suc 0)) = Inr d2" using a by (simp add: numeral_2_eq_2)
  have s1: "period_step 0 ''TODAY'' (Some ''TONIGHT'') = (False, 0)"
    by (simp add: period_step_def)
  have s2: "period_step 0 ''TONIGHT'' (Some ''TUE'') = (True, Suc 0)"
    by (simp add: period_step_def)
  have s3: "period_step (Suc 0) ''TUE'' (Some ''TUE NIGHT'') = (False, Suc 0)"
    by (simp add: period_step_def endswith_def)
  have s4: "period_step (Suc 0) ''TUE NIGHT'' (Some ''WED'') = (True, Suc (Suc 0))"
    by (simp add: period_step_def endswith_def)
  have s5: "period_step (Suc (Suc 0)) ''WED'' None = (False, Suc (Suc 0))"
    by (simp add: period_step_def endswith_def)
  show "map_periods d 0 [(''TODAY'', c1), (''TONIGHT'', c2), (''TUE'', c3), (''TUE NIGHT'', c4), (''WED'', c5)] =
     Inr [\<lparr>lp_night = False, lp_offset = 0, lp_date = d, lp_content = clean_content c1\<rparr>,
          \<lparr>lp_night = True, lp_offset = 0, lp_date = d, lp_content = clean_content c2\<rparr>,
          \<lparr>lp_night = False, lp_offset = 1, lp_date = d1, lp_content = clean_content c3\<rparr>,
          \<lparr>lp_night = True, lp_offset = 1, lp_date = d1, lp_content = clean_content c4\<rparr>,
          \<lparr>lp_night = False, lp_offset = 2, lp_date = d2, lp_content = clean_content c5\<rparr>]"
    using a1 a2 by (simp add: s1 s2 s3 s4 s5 numeral_2_eq_2 del: add_days.simps)
qed

lemma str_nat_small: "str_nat 0 = ''0''" "str_nat (Suc 0) = ''1''" "str_nat 2 = ''2''"
  by code_simp+

text \<open>
  C1.  The example of the specification: the body with TODAY, TONIGHT and MON, issued at
  2024-01-07T08:00:00-08:00, is converted to the three lines D0_DAY (2024-01-07),
  D0_NIGHT (2024-01-07) and D1_DAY (2024-01-08), joined by newlines, in that order.
\<close>

theorem end_to_end_example:
  "parse_forecast_timestamp ''2024-01-07T08:00:00-08:00'' =
     Some \<lparr>dt_date = \<lparr>year = 2024, month = 1, day = 7\<rparr>, hour = 8, minute = 0, second = 0\<rparr> \<and>
   convert_forecast_periods
     ''.TODAY...N wind 5 to 10 kt.\<newline>.TONIGHT...N wind 5 kt.\<newline>.MON...SW wind 10 kt.''
     \<lparr>dt_date = \<lparr>year = 2024, month = 1, day = 7\<rparr>, hour = 8, minute = 0, second = 0\<rparr> =
     Inr ''D0_DAY (2024-01-07) N wind 5 to 10 kt.\<newline>D0_NIGHT (2024-01-07) N wind 5 kt.\<newline>D1_DAY (2024-01-08) SW wind 10 kt.''"
  by code_simp

text \<open>
  C2.  A weekday period followed by REST OF TODAY: the list of names that keep the offset
  has TONIGHT, TODAY, REST OF TONIGHT and THIS AFTERNOON but not REST OF TODAY, so the
  offset is incremented and REST OF TODAY is labelled D1_DAY, one day after the weekday
  period.
\<close>

theorem weekday_then_rest_of_today:
  "convert_forecast_periods ''.MON...N wind 5 kt.\<newline>.REST OF TODAY...N wind 10 kt.''
     \<lparr>dt_date = \<lparr>year = 2024, month = 1, day = 8\<rparr>, hour = 8, minute = 0, second = 0\<rparr> =
     Inr ''D0_DAY (2024-01-08) N wind 5 kt.\<newline>D1_DAY (2024-01-09) N wind 10 kt.''"
  by code_simp

text \<open>
  C3.  For a text whose ordered periods are TODAY, TONIGHT the converter emits D0_DAY then
  D0_NIGHT (the offsets 0, 0), both with the issuance date, whatever the contents.  For a
  text whose ordered periods are TODAY, TONIGHT, TUE, TUE NIGHT, WED it emits D0_DAY,
  D0_NIGHT, D1_DAY, D1_NIGHT, D2_DAY (the offsets 0, 0, 1, 1, 2), TUE with the issuance
  date plus one day and WED with the issuance date plus two days, whenever these two dates
  exist (are not after 9999-12-31).
\<close>

theorem fixed_blocks_offsets:
  "(processed_periods (re_matches period_pattern forecast_text) = [(''TODAY'', c1), (''TONIGHT'', c2)] \<longrightarrow>
      convert_forecast_periods forecast_text forecast_time =
        Inr (''D0_DAY ('' @ str_date (dt_date forecast_time) @ '') '' @ clean_content c1 @ [newline] @
             ''D0_NIGHT ('' @ str_date (dt_date forecast_time) @ '') '' @ clean_content c2)) \<and>
   (processed_periods (re_matches period_pattern forecast_text) =
        [(''TODAY'', c1), (''TONIGHT'', c2), (''TUE'', c3), (''TUE NIGHT'', c4), (''WED'', c5)] \<and>
    add_days (dt_date forecast_time) 1 = Inr d1 \<and> add_days (dt_date forecast_time) 2 = Inr d2 \<longrightarrow>
      convert_forecast_periods forecast_text forecast_time =
        Inr (''D0_DAY ('' @ str_date (dt_date forecast_time) @ '') '' @ clean_content c1 @ [newline] @
             ''D0_NIGHT ('' @ str_date (dt_date forecast_time) @ '') '' @ clean_content c2 @ [newline] @
             ''D1_DAY ('' @ str_date d1 @ '') '' @ clean_content c3 @ [newline] @
             ''D1_NIGHT ('' @ str_date d1 @ '') '' @ clean_content c4 @ [newline] @
             ''D2_DAY ('' @ str_date d2 @ '') '' @ clean_content c5))"
proof (intro conjI impI)
  assume a: "processed_periods (re_matches period_pattern forecast_text) = [(''TODAY'', c1), (''TONIGHT'', c2)]"
  then have ne: "re_matches period_pattern forecast_text \<noteq> []" by auto
  show "convert_forecast_periods forecast_text forecast_time =
        Inr (''D0_DAY ('' @ str_date (dt_date forecast_time) @ '') '' @ clean_content c1 @ [newline] @
             ''D0_NIGHT ('' @ str_date (dt_date forecast_time) @ '') '' @ clean_content c2)"
    using ne map_periods_fixed_blocks [of "dt_date forecast_time" c1 c2]
    by (simp add: convert_forecast_periods_def a render_period_def str_nat_small del: map_periods.simps)
next
  assume a: "processed_periods (re_matches period_pattern forecast_text) =
        [(''TODAY'', c1), (''TONIGHT'', c2), (''TUE'', c3), (''TUE NIGHT'', c4), (''WED'', c5)] \<and>
    add_days (dt_date forecast_time) 1 = Inr d1 \<and> add_days (dt_date forecast_time) 2 = Inr d2"
  then have ne: "re_matches period_pattern forecast_text \<noteq> []" by auto
  have m: "map_periods (dt_date forecast_time) 0
      [(''TODAY'', c1), (''TONIGHT'', c2), (''TUE'', c3), (''TUE NIGHT'', c4), (''WED'', c5)] =
     Inr [\<lparr>lp_night = False, lp_offset = 0, lp_date = dt_date forecast_time, lp_content = clean_content c1\<rparr>,
          \<lparr>lp_night = True, lp_offset = 0, lp_date = dt_date forecast_time, lp_content = clean_content c2\<rparr>,
          \<lparr>lp_night = False, lp_offset = 1, lp_date = d1, lp_content = clean_content c3\<rparr>,
          \<lparr>lp_night = True, lp_offset = 1, lp_date = d1, lp_content = clean_content c4\<rparr>,
          \<lparr>lp_night = False, lp_offset = 2, lp_date = d2, lp_content = clean_content c5\<rparr>]"
    using a map_periods_fixed_blocks [of "dt_date forecast_time" c1 c2 d1 d2 c3 c4 c5] by blast
  show "convert_forecast_periods forecast_text forecast_time =
        Inr (''D0_DAY ('' @ str_date (dt_date forecast_time) @ '') '' @ clean_content c1 @ [newline] @
             ''D0_NIGHT ('' @ str_date (dt_date forecast_time) @ '') '' @ clean_content c2 @ [newline] @
             ''D1_DAY ('' @ str_date d1 @ '') '' @ clean_content c3 @ [newline] @
             ''D1_NIGHT ('' @ str_date d1 @ '') '' @ clean_content c4 @ [newline] @
             ''D2_DAY ('' @ str_date d2 @ '') '' @ clean_content c5)"
    using ne a
    by (simp add: convert_forecast_periods_def m render_period_def str_nat_small del: map_periods.simps)
qed

theorem fixed_blocks_offsets_witness:
  "processed_periods (re_matches period_pattern
       ''.TODAY...N wind 5 kt.\<newline>.TONIGHT...N wind 10 kt.\<newline>.TUE...W wind 5 kt.\<newline>.TUE NIGHT...W wind 10 kt.\<newline>.WED...S wind 5 kt.'') =
     [(''TODAY'', ''N wind 5 kt.''), (''TONIGHT'', ''N wind 10 kt.''), (''TUE'', ''W wind 5 kt.''),
      (''TUE NIGHT'', ''W wind 10 kt.''), (''WED'', ''S wind 5 kt.'')] \<and>
   add_days \<lparr>year = 2024, month = 1, day = 7\<rparr> 1 = Inr \<lparr>year = 2024, month = 1, day = 8\<rparr> \<and>
   add_days \<lparr>year = 2024, month = 1, day = 7\<rparr> 2 = Inr \<lparr>year = 2024, month = 1, day = 9\<rparr> \<and>
   convert_forecast_periods
       ''.TODAY...N wind 5 kt.\<newline>.TONIGHT...N wind 10 kt.\<newline>.TUE...W wind 5 kt.\<newline>.TUE NIGHT...W wind 10 kt.\<newline>.WED...S wind 5 kt.''
       \<lparr>dt_date = \<lparr>year = 2024, month = 1, day = 7\<rparr>, hour = 8, minute = 0, second = 0\<rparr> =
     Inr ''D0_DAY (2024-01-07) N wind 5 kt.\<newline>D0_NIGHT (2024-01-07) N wind 10 kt.\<newline>D1_DAY (2024-01-08) W wind 5 kt.\<newline>D1_NIGHT (2024-01-08) W wind 10 kt.\<newline>D2_DAY (2024-01-09) S wind 5 kt.''"
proof -
  have h0: "processed_periods (re_matches period_pattern
       ''.TODAY...N wind 5 kt.\<newline>.TONIGHT...N wind 10 kt.\<newline>.TUE...W wind 5 kt.\<newline>.TUE NIGHT...W wind 10 kt.\<newline>.WED...S wind 5 kt.'') =
     [(''TODAY'', ''N wind 5 kt.''), (''TONIGHT'', ''N wind 10 kt.''), (''TUE'', ''W wind 5 kt.''),
      (''TUE NIGHT'', ''W wind 10 kt.''), (''WED'', ''S wind 5 kt.'')]"
    by code_simp
  have h1: "add_days \<lparr>year = 2024, month = 1, day = 7\<rparr> 1 = Inr \<lparr>year = 2024, month = 1, day = 8\<rparr>"
    by code_simp
  have h2: "add_days \<lparr>year = 2024, month = 1, day = 7\<rparr> 2 = Inr \<lparr>year = 2024, month = 1, day = 9\<rparr>"
    by code_simp
  have s: "str_date \<lparr>year = 2024, month = 1, day = 7\<rparr> = ''2024-01-07''"
    "str_date \<lparr>year = 2024, month = 1, day = 8\<rparr> = ''2024-01-08''"
    "str_date \<lparr>year = 2024, month = 1, day = 9\<rparr> = ''2024-01-09''"
    by code_simp+
  have c: "clean_content ''N wind 5 kt.'' = ''N wind 5 kt.''" "clean_content ''N wind 10 kt.'' = ''N wind 10 kt.''"
    "clean_content ''W wind 5 kt.'' = ''W wind 5 kt.''" "clean_content ''W wind 10 kt.'' = ''W wind 10 kt.''"
    "clean_content ''S wind 5 kt.'' = ''S wind 5 kt.''"
    by code_simp+
  have "convert_forecast_periods
       ''.TODAY...N wind 5 kt.\<newline>.TONIGHT...N wind 10 kt.\<newline>.TUE...W wind 5 kt.\<newline>.TUE NIGHT...W wind 10 kt.\<newline>.WED...S wind 5 kt.''
       \<lparr>dt_date = \<lparr>year = 2024, month = 1, day = 7\<rparr>, hour = 8, minute = 0, second = 0\<rparr> =
        Inr (''D0_DAY ('' @ str_date \<lparr>year = 2024, month = 1, day = 7\<rparr> @ '') '' @ clean_content ''N wind 5 kt.'' @ [newline] @
             ''D0_NIGHT ('' @ str_date \<lparr>year = 2024, month = 1, day = 7\<rparr> @ '') '' @ clean_content ''N wind 10 kt.'' @ [newline] @
             ''D1_DAY ('' @ str_date \<lparr>year = 2024, month = 1, day = 8\<rparr> @ '') '' @ clean_content ''W wind 5 kt.'' @ [newline] @
             ''D1_NIGHT ('' @ str_date \<lparr>year = 2024, month = 1, day = 8\<rparr> @ '') '' @ clean_content ''W wind 10 kt.'' @ [newline] @
             ''D2_DAY ('' @ str_date \<lparr>year = 2024, month = 1, day = 9\<rparr> @ '') '' @ clean_content ''S wind 5 kt.'')"
    using h0 h1 h2
      fixed_blocks_offsets [of
        "''.TODAY...N wind 5 kt.\<newline>.TONIGHT...N wind 10 kt.\<newline>.TUE...W wind 5 kt.\<newline>.TUE NIGHT...W wind 10 kt.\<newline>.WED...S wind 5 kt.''"
        "''N wind 5 kt.''" "''N wind 10 kt.''"
        "\<lparr>dt_date = \<lparr>year = 2024, month = 1, day = 7\<rparr>, hour = 8, minute = 0, second = 0\<rparr>"
        "''W wind 5 kt.''" "''W wind 10 kt.''" "''S wind 5 kt.''"
        "\<lparr>year = 2024, month = 1, day = 8\<rparr>" "\<lparr>year = 2024, month = 1, day = 9\<rparr>"]
    by simp
  then have "convert_forecast_periods
       ''.TODAY...N wind 5 kt.\<newline>.TONIGHT...N wind 10 kt.\<newline>.TUE...W wind 5 kt.\<newline>.TUE NIGHT...W wind 10 kt.\<newline>.WED...S wind 5 kt.''
       \<lparr>dt_date = \<lparr>year = 2024, month = 1, day = 7\<rparr>, hour = 8, minute = 0, second = 0\<rparr> =
     Inr ''D0_DAY (2024-01-07) N wind 5 kt.\<newline>D0_NIGHT (2024-01-07) N wind 10 kt.\<newline>D1_DAY (2024-01-08) W wind 5 kt.\<newline>D1_NIGHT (2024-01-08) W wind 10 kt.\<newline>D2_DAY (2024-01-09) S wind 5 kt.''"
    unfolding s c newline_def by simp
  then show ?thesis using h0 h1 h2 by blast
qed

text \<open>
  C4.  In every sequence the mapper emits, from any starting offset, the day offsets are
  non-decreasing from the first period to the last, and so are the dates.
\<close>

theorem offsets_and_dates_monotone:
  assumes "map_periods d off ps = Inr out"
  shows "sorted (map lp_offset out) \<and> sorted_wrt date_le (map lp_date out)"
proof -
  have s: "sorted (map lp_offset out)" using assms by (rule map_periods_sorted)
  have dts: "\<forall>x \<in> set out. add_days d (lp_offset x) = Inr (lp_date x)"
    using assms by (rule map_periods_dates)
  have "sorted_wrt (\<lambda>x y. date_le (lp_date x) (lp_date y)) out"
  proof (rule sorted_wrt_mono_rel [of out "\<lambda>x y. lp_offset x \<le> lp_offset y"])
    show "sorted_wrt (\<lambda>x y. lp_offset x \<le> lp_offset y) out"
      using s by (simp add: sorted_wrt_map)
  next
    fix x y assume "x \<in> set out" "y \<in> set out" "lp_offset x \<le> lp_offset y"
    then show "date_le (lp_date x) (lp_date y)"
      using dts add_days_mono by blast
  qed
  then show ?thesis using s by (simp add: sorted_wrt_map)
qed

theorem offsets_and_dates_monotone_witness:
  "map_periods \<lparr>year = 2024, month = 12, day = 31\<rparr> 0 [(''TONIGHT'', ''a''), (''WED'', ''b''), (''THU'', ''c'')] =
     Inr [\<lparr>lp_night = True, lp_offset = 0, lp_date = \<lparr>year = 2024, month = 12, day = 31\<rparr>, lp_content = ''a''\<rparr>,
          \<lparr>lp_night = False, lp_offset = 1, lp_date = \<lparr>year = 2025, month = 1, day = 1\<rparr>, lp_content = ''b''\<rparr>,
          \<lparr>lp_night = False, lp_offset = 2, lp_date = \<lparr>year = 2025, month = 1, day = 2\<rparr>, lp_content = ''c''\<rparr>] \<and>
   sorted [0, 1, 2 :: nat] \<and>
   sorted_wrt date_le [\<lparr>year = 2024, month = 12, day = 31\<rparr>, \<lparr>year = 2025, month = 1, day = 1\<rparr>,
                       \<lparr>year = 2025, month = 1, day = 2\<rparr>]"
proof -
  have h: "map_periods \<lparr>year = 2024, month = 12, day = 31\<rparr> 0 [(''TONIGHT'', ''a''), (''WED'', ''b''), (''THU'', ''c'')] =
     Inr [\<lparr>lp_night = True, lp_offset = 0, lp_date = \<lparr>year = 2024, month = 12, day = 31\<rparr>, lp_content = ''a''\<rparr>,
          \<lparr>lp_night = False, lp_offset = 1, lp_date = \<lparr>year = 2025, month = 1, day = 1\<rparr>, lp_content = ''b''\<rparr>,
          \<lparr>lp_night = False, lp_offset = 2, lp_date = \<lparr>year = 2025, month = 1, day = 2\<rparr>, lp_content = ''c''\<rparr>]"
    by code_simp
  show ?thesis using h offsets_and_dates_monotone [OF h] by simp
qed

text \<open>
  C10.  In every sequence the mapper emits, the offset of a period is at most one more
  than the offset of the period before it: no day number is skipped.
\<close>

theorem offset_step_at_most_one:
  assumes "map_periods d off ps = Inr out" and "Suc i < length out"
  shows "lp_offset (out ! Suc i) \<le> lp_offset (out ! i) + 1"
  using map_periods_step [OF assms(1)] assms(2) by blast

theorem offset_step_at_most_one_witness:
  "map_periods \<lparr>year = 2024, month = 1, day = 7\<rparr> 0 [(''MON'', ''a''), (''TUE'', ''b'')] =
     Inr [\<lparr>lp_night = False, lp_offset = 0, lp_date = \<lparr>year = 2024, month = 1, day = 7\<rparr>, lp_content = ''a''\<rparr>,
          \<lparr>lp_night = False, lp_offset = 1, lp_date = \<lparr>year = 2024, month = 1, day = 8\<rparr>, lp_content = ''b''\<rparr>] \<and>
   Suc 0 < length [\<lparr>lp_night = False, lp_offset = 0, lp_date = \<lparr>year = 2024, month = 1, day = 7\<rparr>, lp_content = ''a''\<rparr>,
          \<lparr>lp_night = False, lp_offset = 1, lp_date = \<lparr>year = 2024, month = 1, day = 8\<rparr>, lp_content = ''b''\<rparr>] \<and>
   (1::nat) \<le> 0 + 1"
proof -
  have h: "map_periods \<lparr>year = 2024, month = 1, day = 7\<rparr> 0 [(''MON'', ''a''), (''TUE'', ''b'')] =
     Inr [\<lparr>lp_night = False, lp_offset = 0, lp_date = \<lparr>year = 2024, month = 1, day = 7\<rparr>, lp_content = ''a''\<rparr>,
          \<lparr>lp_night = False, lp_offset = 1, lp_date = \<lparr>year = 2024, month = 1, day = 8\<rparr>, lp_content = ''b''\<rparr>]"
    by code_simp
  show ?thesis using h offset_step_at_most_one [OF h, of 0] by simp
qed

section \<open>The verdict of the corruption detector\<close>

lemma foldl_check_nws:
  "has_corruption (foldl (check_nws s) ci ps) = (has_corruption ci \<or> matched s ps \<noteq> [])"
  "corruption_types (foldl (check_nws s) ci ps) = corruption_types ci @ map snd (matched s ps)"
  "corruption_details (foldl (check_nws s) ci ps) =
     corruption_details ci @ concat (map (\<lambda>pc. map py_str (take 3 (re_findall (fst pc) s))) ps)"
  by (induction ps arbitrary: ci; simp add: check_nws_def matched_def Let_def split: prod.splits)+

lemma foldl_check_dotted:
  "has_corruption (foldl (check_dotted s) ci ps) = (has_corruption ci \<or> matched s ps \<noteq> [])"
  "corruption_types (foldl (check_dotted s) ci ps) = corruption_types ci @ map snd (matched s ps)"
  "corruption_details (foldl (check_dotted s) ci ps) =
     corruption_details ci @
     concat (map (\<lambda>pc. map (\<lambda>m. ''.'' @ py_str m) (take 3 (re_findall (fst pc) s))) ps)"
  by (induction ps arbitrary: ci; simp add: check_dotted_def matched_def Let_def split: prod.splits)+

lemma foldl_check_long:
  "has_corruption (foldl check_long ci ps) =
     (has_corruption ci \<or> filter (\<lambda>p. 1000 < length (py_strip (snd p))) ps \<noteq> [])"
  "corruption_types (foldl check_long ci ps) =
     corruption_types ci @
     map (\<lambda>p. ''ABNORMALLY_LONG_PERIOD'') (filter (\<lambda>p. 1000 < length (py_strip (snd p))) ps)"
  "corruption_details (foldl check_long ci ps) =
     corruption_details ci @
     map (\<lambda>p. ''.'' @ fst p @ '': '' @ str_nat (length (py_strip (snd p))) @ '' chars'')
         (filter (\<lambda>p. 1000 < length (py_strip (snd p))) ps)"
  by (induction ps arbitrary: ci; simp add: check_long_def Let_def split: prod.splits)+

lemma check_timestamps_fields:
  "has_corruption (check_timestamps s ci) = (has_corruption ci \<or> re_findall timestamp_pattern s \<noteq> [])"
  "corruption_types (check_timestamps s ci) =
     corruption_types ci @ (if re_findall timestamp_pattern s \<noteq> [] then [''EMBEDDED_TIMESTAMPS''] else [])"
  "corruption_details (check_timestamps s ci) =
     corruption_details ci @ map py_str (take 2 (re_findall timestamp_pattern s))"
  by (simp_all add: check_timestamps_def Let_def)

lemma foldl_check_keyword:
  "has_corruption (foldl (check_keyword s) ci ks) =
     (has_corruption ci \<or> filter (\<lambda>k. contains (py_lower s) (py_lower k)) ks \<noteq> [])"
  "corruption_types (foldl (check_keyword s) ci ks) =
     corruption_types ci @
     (if filter (\<lambda>k. contains (py_lower s) (py_lower k)) ks \<noteq> [] \<and>
         ''NON_WEATHER_CONTENT'' \<notin> set (corruption_types ci)
      then [''NON_WEATHER_CONTENT''] else [])"
  "corruption_details (foldl (check_keyword s) ci ks) =
     corruption_details ci @ filter (\<lambda>k. contains (py_lower s) (py_lower k)) ks"
  by (induction ks arbitrary: ci; simp add: check_keyword_def)+

lemma foldl_check_short:
  "has_corruption (foldl check_short ci ps) =
     (has_corruption ci \<or> filter (\<lambda>p. length (py_strip (snd p)) < 10) ps \<noteq> [])"
  "corruption_types (foldl check_short ci ps) =
     corruption_types ci @
     (if filter (\<lambda>p. length (py_strip (snd p)) < 10) ps \<noteq> [] \<and>
         ''EXTREMELY_SHORT_PERIOD'' \<notin> set (corruption_types ci)
      then [''EXTREMELY_SHORT_PERIOD''] else [])"
  "corruption_details (foldl check_short ci ps) =
     corruption_details ci @
     map (\<lambda>p. ''.'' @ fst p @ '': '' @ [CHR 0x27] @ py_strip (snd p) @ [CHR 0x27])
         (filter (\<lambda>p. length (py_strip (snd p)) < 10) ps)"
  by (induction ps arbitrary: ci; simp add: check_short_def Let_def split: prod.splits)+

lemma table_names:
  "''NON_WEATHER_CONTENT'' \<notin> snd ` set nws_patterns"
  "''NON_WEATHER_CONTENT'' \<notin> snd ` set truncated_patterns"
  "''NON_WEATHER_CONTENT'' \<notin> snd ` set anomalous_patterns"
  "''EXTREMELY_SHORT_PERIOD'' \<notin> snd ` set nws_patterns"
  "''EXTREMELY_SHORT_PERIOD'' \<notin> snd ` set truncated_patterns"
  "''EXTREMELY_SHORT_PERIOD'' \<notin> snd ` set anomalous_patterns"
  by (simp_all add: nws_patterns_def truncated_patterns_def anomalous_patterns_def)

lemma matched_names: "c \<notin> snd ` set table \<Longrightarrow> c \<notin> snd ` set (matched s table)"
  by (auto simp: matched_def)

lemma detect_flag:
  "has_corruption (detect_corruption_patterns s) =
     (matched s nws_patterns \<noteq> [] \<or> matched s truncated_patterns \<noteq> [] \<or>
      matched s anomalous_patterns \<noteq> [] \<or> long_periods s \<noteq> [] \<or>
      re_findall timestamp_pattern s \<noteq> [] \<or> matched_keywords s \<noteq> [] \<or> short_periods s \<noteq> [])"
  unfolding detect_corruption_patterns_def Let_def
  by (auto simp: foldl_check_nws foldl_check_dotted foldl_check_long check_timestamps_fields
      foldl_check_keyword foldl_check_short long_periods_def short_periods_def matched_keywords_def)

lemma detect_types:
  "corruption_types (detect_corruption_patterns s) =
     map snd (matched s nws_patterns) @ map snd (matched s truncated_patterns) @
     map snd (matched s anomalous_patterns) @
     map (\<lambda>p. ''ABNORMALLY_LONG_PERIOD'') (long_periods s) @
     (if re_findall timestamp_pattern s \<noteq> [] then [''EMBEDDED_TIMESTAMPS''] else []) @
     (if matched_keywords s \<noteq> [] then [''NON_WEATHER_CONTENT''] else []) @
     (if short_periods s \<noteq> [] then [''EXTREMELY_SHORT_PERIOD''] else [])"
  unfolding detect_corruption_patterns_def Let_def
  using table_names [THEN matched_names, of s]
  by (simp add: foldl_check_nws foldl_check_dotted foldl_check_long check_timestamps_fields
      foldl_check_keyword foldl_check_short long_periods_def short_periods_def matched_keywords_def
      image_iff)

lemma detect_details:
  "corruption_details (detect_corruption_patterns s) =
     concat (map (\<lambda>pc. map py_str (take 3 (re_findall (fst pc) s))) nws_patterns) @
     concat (map (\<lambda>pc. map (\<lambda>m. ''.'' @ py_str m) (take 3 (re_findall (fst pc) s)))
                 (truncated_patterns @ anomalous_patterns)) @
     map (\<lambda>p. ''.'' @ fst p @ '': '' @ str_nat (length (py_strip (snd p))) @ '' chars'') (long_periods s) @
     map py_str (take 2 (re_findall timestamp_pattern s)) @
     matched_keywords s @
     map (\<lambda>p. ''.'' @ fst p @ '': '' @ [CHR 0x27] @ py_strip (snd p) @ [CHR 0x27]) (short_periods s)"
  unfolding detect_corruption_patterns_def Let_def
  by (simp add: foldl_check_nws foldl_check_dotted foldl_check_long check_timestamps_fields
      foldl_check_keyword foldl_check_short long_periods_def short_periods_def matched_keywords_def)

lemma matched_nil_concat:
  "matched s table = [] \<Longrightarrow> concat (map (\<lambda>pc. map f (take n (re_findall (fst pc) s))) table) = []"
  by (auto simp: matched_def filter_empty_conv)

text \<open>
  C9.  For every content the flag of the verdict is set exactly when the list of
  categories is not empty, and exactly when one of the checks finds something; a verdict
  that is not flagged has no category and no detail.
\<close>

theorem flag_iff_types:
  "has_corruption (detect_corruption_patterns s) = (corruption_types (detect_corruption_patterns s) \<noteq> []) \<and>
   has_corruption (detect_corruption_patterns s) =
     (matched s nws_patterns \<noteq> [] \<or> matched s truncated_patterns \<noteq> [] \<or>
      matched s anomalous_patterns \<noteq> [] \<or> long_periods s \<noteq> [] \<or>
      re_findall timestamp_pattern s \<noteq> [] \<or> matched_keywords s \<noteq> [] \<or> short_periods s \<noteq> []) \<and>
   (\<not> has_corruption (detect_corruption_patterns s) \<longrightarrow>
      corruption_types (detect_corruption_patterns s) = [] \<and>
      corruption_details (detect_corruption_patterns s) = [])"
proof (intro conjI impI)
  show "has_corruption (detect_corruption_patterns s) = (corruption_types (detect_corruption_patterns s) \<noteq> [])"
    by (simp add: detect_flag detect_types)
next
  show "has_corruption (detect_corruption_patterns s) =
     (matched s nws_patterns \<noteq> [] \<or> matched s truncated_patterns \<noteq> [] \<or>
      matched s anomalous_patterns \<noteq> [] \<or> long_periods s \<noteq> [] \<or>
      re_findall timestamp_pattern s \<noteq> [] \<or> matched_keywords s \<noteq> [] \<or> short_periods s \<noteq> [])"
    by (rule detect_flag)
next
  assume "\<not> has_corruption (detect_corruption_patterns s)"
  then show "corruption_types (detect_corruption_patterns s) = []"
    by (simp add: detect_flag detect_types)
next
  assume "\<not> has_corruption (detect_corruption_patterns s)"
  then have e: "matched s nws_patterns = []" "matched s truncated_patterns = []"
    "matched s anomalous_patterns = []" "long_periods s = []"
    "re_findall timestamp_pattern s = []" "matched_keywords s = []" "short_periods s = []"
    by (simp_all add: detect_flag)
  show "corruption_details (detect_corruption_patterns s) = []"
    by (simp add: detect_details e matched_nil_concat)
qed

theorem flag_iff_types_witness:
  "has_corruption (detect_corruption_patterns ''.MON... N wind 10 kt.'') = False \<and>
   corruption_types (detect_corruption_patterns ''.MON... N wind 10 kt.'') = [] \<and>
   corruption_details (detect_corruption_patterns ''.MON... N wind 10 kt.'') = []"
proof -
  have h: "\<not> has_corruption (detect_corruption_patterns ''.MON... N wind 10 kt.'')"
    by code_simp
  show ?thesis using h flag_iff_types [of "''.MON... N wind 10 kt.''"] by blast
qed

text \<open>
  C6, as stated: at most 3 example matches per matched category.  Four periods of one
  character each give one category, EXTREMELY_SHORT_PERIOD, and four details.
\<close>

theorem four_short_periods:
  "corruption_types (detect_corruption_patterns ''.MON...a\<newline>.TUE...b\<newline>.WED...c\<newline>.THU...d'') =
     [''EXTREMELY_SHORT_PERIOD''] \<and>
   length (corruption_details (detect_corruption_patterns ''.MON...a\<newline>.TUE...b\<newline>.WED...c\<newline>.THU...d'')) = 4 \<and>
   \<not> length (corruption_details (detect_corruption_patterns ''.MON...a\<newline>.TUE...b\<newline>.WED...c\<newline>.THU...d''))
       \<le> 3 * length (corruption_types (detect_corruption_patterns ''.MON...a\<newline>.TUE...b\<newline>.WED...c\<newline>.THU...d''))"
  by code_simp

text \<open>
  C6, amended.  The categories of the verdict are the categories of all the checks that
  find something, in the order of the checks: one per matching pattern of the three
  tables, ABNORMALLY_LONG_PERIOD once per over-long period, then EMBEDDED_TIMESTAMPS,
  NON_WEATHER_CONTENT and EXTREMELY_SHORT_PERIOD.  The details are at most 3 matches of
  each pattern of the three tables, one entry per over-long period, at most 2 embedded
  timestamps, one entry per keyword found and one entry per too-short period.  The checks
  are additive: a content that is a timestamp on a line of its own has two categories.
\<close>

theorem verdict_categories_and_details:
  "corruption_types (detect_corruption_patterns s) =
     map snd (matched s nws_patterns) @ map snd (matched s truncated_patterns) @
     map snd (matched s anomalous_patterns) @
     map (\<lambda>p. ''ABNORMALLY_LONG_PERIOD'') (long_periods s) @
     (if re_findall timestamp_pattern s \<noteq> [] then [''EMBEDDED_TIMESTAMPS''] else []) @
     (if matched_keywords s \<noteq> [] then [''NON_WEATHER_CONTENT''] else []) @
     (if short_periods s \<noteq> [] then [''EXTREMELY_SHORT_PERIOD''] else []) \<and>
   corruption_details (detect_corruption_patterns s) =
     concat (map (\<lambda>pc. map py_str (take 3 (re_findall (fst pc) s))) nws_patterns) @
     concat (map (\<lambda>pc. map (\<lambda>m. ''.'' @ py_str m) (take 3 (re_findall (fst pc) s)))
                 (truncated_patterns @ anomalous_patterns)) @
     map (\<lambda>p. ''.'' @ fst p @ '': '' @ str_nat (length (py_strip (snd p))) @ '' chars'') (long_periods s) @
     map py_str (take 2 (re_findall timestamp_pattern s)) @
     matched_keywords s @
     map (\<lambda>p. ''.'' @ fst p @ '': '' @ [CHR 0x27] @ py_strip (snd p) @ [CHR 0x27]) (short_periods s) \<and>
   corruption_types (detect_corruption_patterns ''2024-01-07T09:00:00-08:00'') =
     [''EMBEDDED_TIMESTAMP'', ''EMBEDDED_TIMESTAMPS'']"
proof (intro conjI)
  show "corruption_types (detect_corruption_patterns ''2024-01-07T09:00:00-08:00'') =
     [''EMBEDDED_TIMESTAMP'', ''EMBEDDED_TIMESTAMPS'']"
    by code_simp
qed (rule detect_types, rule detect_details)

text \<open>
  C7.  A period header with one dot after the name: no check of the detector matches, and
  the verdict is clean.  The MISSING_DOTS pattern of the detector asks for a backslash
  after the name; the pattern of the sibling script, with a single dot, matches the header.
\<close>

theorem single_dot_header_not_flagged:
  "detect_corruption_patterns ''.MON. N wind 10 kt.'' =
     \<lparr>has_corruption = False, corruption_types = [], corruption_details = []\<rparr> \<and>
   re_findall missing_dots_sibling ''.MON. N wind 10 kt.'' = [FStr ''MON'']"
  by code_simp

section \<open>Matching does not depend on the groups\<close>

text \<open>
  Where a pattern matches, and what it consumes, does not depend on what the groups hold:
  from two states at the same position the matcher returns states at the same positions.
\<close>

lemma step_char_same:
  "same_pos x y \<Longrightarrow> list_all2 same_pos (step_char P x) (step_char P y)"
  by (cases x; cases y; cases "rest x") (auto simp: same_pos_def)

lemma concat_map_same:
  assumes "list_all2 same_pos xs ys"
    and "\<And>x y. x \<in> set xs \<Longrightarrow> same_pos x y \<Longrightarrow> list_all2 same_pos (f x) (g y)"
  shows "list_all2 same_pos (concat (map f xs)) (concat (map g ys))"
  using assms
proof (induction xs ys rule: list_all2_induct)
  case Nil
  then show ?case by simp
next
  case (Cons x xs y ys)
  then show ?case by (auto intro!: list_all2_appendI)
qed

lemma filter_same:
  assumes "list_all2 same_pos xs ys"
    and "\<And>x y. same_pos x y \<Longrightarrow> P x = Q y"
  shows "list_all2 same_pos (filter P xs) (filter Q ys)"
  using assms
  by (induction xs ys rule: list_all2_induct) auto

lemma rep_same:
  assumes f: "\<And>x y. same_pos x y \<Longrightarrow> list_all2 same_pos (f x) (f y)"
  shows "same_pos st st' \<Longrightarrow> list_all2 same_pos (rep f greedy lo hi st) (rep f greedy lo hi st')"
proof (induction "length (rest st)" arbitrary: st st' lo hi rule: less_induct)
  case less
  let ?xs = "filter (\<lambda>x. length (rest x) < length (rest st)) (f st)"
  let ?ys = "filter (\<lambda>x. length (rest x) < length (rest st')) (f st')"
  have r: "rest st' = rest st" using less.prems by (simp add: same_pos_def)
  have fl: "list_all2 same_pos ?xs ?ys"
    by (rule filter_same [OF f [OF less.prems]]) (simp add: same_pos_def r)
  have more: "list_all2 same_pos
      (concat (map (\<lambda>x. rep f greedy (lo - 1) (map_option (\<lambda>h. h - 1) hi) x) ?xs))
      (concat (map (\<lambda>x. rep f greedy (lo - 1) (map_option (\<lambda>h. h - 1) hi) x) ?ys))"
  proof (rule concat_map_same [OF fl])
    fix x y assume "x \<in> set ?xs" "same_pos x y"
    then show "list_all2 same_pos (rep f greedy (lo - 1) (map_option (\<lambda>h. h - 1) hi) x)
        (rep f greedy (lo - 1) (map_option (\<lambda>h. h - 1) hi) y)"
      using less.hyps by simp
  qed
  have stop: "list_all2 same_pos (if lo = 0 then [st] else []) (if lo = 0 then [st'] else [])"
    using less.prems by simp
  show ?case
    unfolding rep.simps [of f greedy lo hi st] rep.simps [of f greedy lo hi st']
    using more stop by (auto simp: Let_def intro!: list_all2_appendI)
qed

lemma rmatch_same:
  "same_pos st st' \<Longrightarrow> list_all2 same_pos (rmatch r st) (rmatch r st')"
proof (induction r arbitrary: st st')
  case (RSeq a b)
  show ?case
    using concat_map_same [OF RSeq.IH(1) [OF RSeq.prems], of "\<lambda>x. rmatch b x" "\<lambda>x. rmatch b x"] RSeq.IH(2)
    by simp
next
  case (RAlt a b)
  then show ?case by (auto intro!: list_all2_appendI)
next
  case (RRep lo hi greedy r)
  show ?case
    using rep_same [of "\<lambda>x. rmatch r x", OF RRep.IH RRep.prems] by simp
next
  case (RGrp k r)
  have "list_all2 same_pos (rmatch r st) (rmatch r st')" using RGrp by simp
  then show ?case using RGrp.prems
    by (auto simp: list_all2_map1 list_all2_map2 same_pos_def elim!: list_all2_mono)
next
  case (RAhead r)
  have "list_all2 same_pos (rmatch r st) (rmatch r st')" using RAhead by simp
  then show ?case using RAhead.prems
    by (cases "rmatch r st"; cases "rmatch r st'") (auto simp: same_pos_def)
next
  case (RNotAhead r)
  have "list_all2 same_pos (rmatch r st) (rmatch r st')" using RNotAhead by simp
  then show ?case using RNotAhead.prems
    by (cases "rmatch r st"; cases "rmatch r st'") (auto simp: same_pos_def)
qed (auto simp: step_char_same same_pos_def split: list.splits)

lemma rmatch_nil_caps:
  "rmatch r (MState p s c) = [] \<Longrightarrow> rmatch r (MState p s c') = []"
  using rmatch_same [of "MState p s c" "MState p s c'" r] by (simp add: same_pos_def)

lemma scan_nil:
  "fst (scan r n False p s sk) = [] \<longleftrightarrow>
   rmatch r (MState p s (replicate n None)) = [] \<and>
   (case s of [] \<Rightarrow> True | c # s' \<Rightarrow> fst (scan r n False (Some c) s' (c # sk)) = [])"
  by (subst scan.simps) (auto simp: Let_def split: list.splits prod.splits)

lemma scan_seq_nil:
  "fst (scan a n False p s sk) = [] \<Longrightarrow> fst (scan (RSeq a b) n' False p s sk') = []"
proof (induction s arbitrary: p sk sk')
  case Nil
  then have "rmatch a (MState p [] (replicate n None)) = []" by (simp add: scan_nil)
  then have "rmatch a (MState p [] (replicate n' None)) = []" by (rule rmatch_nil_caps)
  then show ?case by (subst scan_nil) simp
next
  case (Cons c s)
  from Cons.prems have a: "rmatch a (MState p (c # s) (replicate n None)) = []"
    and t: "fst (scan a n False (Some c) s (c # sk)) = []"
    by (simp_all add: scan_nil [of a n p "c # s"])
  have "rmatch a (MState p (c # s) (replicate n' None)) = []" using a by (rule rmatch_nil_caps)
  moreover have "fst (scan (RSeq a b) n' False (Some c) s (c # sk')) = []"
    using Cons.IH [OF t] .
  ultimately show ?case by (subst scan_nil) simp
qed

lemma no_header_no_period:
  "re_findall (period_header 1) s = [] \<Longrightarrow> re_matches period_pattern s = []"
  unfolding re_findall_def re_matches_def period_pattern_def seqs_def
  by (simp add: scan_seq_nil)

text \<open>
  C8, as stated: a text in which no period header of the fixed vocabulary matches is
  returned unchanged.  The header of the code takes any 3 to 7 capital letters as a period
  name: the text \<^verbatim>\<open>.OUTLOOK...Winds light.\<close> has no header of the vocabulary
  of the specification, and it is converted to a D0_DAY line.
\<close>

theorem outlook_header_converted:
  "re_findall spec_vocabulary_header ''.OUTLOOK...Winds light.'' = [] \<and>
   convert_forecast_periods ''.OUTLOOK...Winds light.''
     \<lparr>dt_date = \<lparr>year = 2024, month = 1, day = 7\<rparr>, hour = 8, minute = 0, second = 0\<rparr> =
     Inr ''D0_DAY (2024-01-07) Winds light.'' \<and>
   ''D0_DAY (2024-01-07) Winds light.'' \<noteq> ''.OUTLOOK...Winds light.''"
  by code_simp

text \<open>
  C8, amended.  When the period header of the code (a dot, then REST OF and capital
  letters, THIS AFTERNOON, or 3 to 7 capital letters with an optional NIGHT, then two or
  three dots) matches nowhere in the text, the period pattern finds no period and
  \<^verbatim>\<open>convert_forecast_periods\<close> returns the text as it is; the result is a
  value, not an exception.
\<close>

theorem zero_periods_unchanged:
  "re_findall (period_header 1) forecast_text = [] \<Longrightarrow>
   convert_forecast_periods forecast_text forecast_time = Inr forecast_text"
  by (simp add: convert_forecast_periods_def no_header_no_period)

theorem zero_periods_unchanged_witness:
  "re_findall (period_header 1) ''Winds light and variable.'' = [] \<and>
   convert_forecast_periods ''Winds light and variable.''
     \<lparr>dt_date = \<lparr>year = 2024, month = 1, day = 7\<rparr>, hour = 8, minute = 0, second = 0\<rparr> =
     Inr ''Winds light and variable.''"
proof -
  have h: "re_findall (period_header 1) ''Winds light and variable.'' = []"
    by code_simp
  show ?thesis using h zero_periods_unchanged [OF h] by simp
qed

section \<open>Corrupted blocks are skipped\<close>

text \<open>
  The matcher keeps the number of groups, so a group around a whole pattern captures the
  whole match: the analysis and the conversion find the same timestamp in a block.
\<close>

lemma step_char_caps: "x \<in> set (step_char P st) \<Longrightarrow> length (caps x) = length (caps st)"
  by (cases st; cases "rest st") (auto split: if_splits)

lemma rep_caps:
  assumes f: "\<And>x y. y \<in> set (f x) \<Longrightarrow> length (caps y) = length (caps x)"
  shows "y \<in> set (rep f greedy lo hi st) \<Longrightarrow> length (caps y) = length (caps st)"
proof (induction "length (rest st)" arbitrary: st lo hi rule: less_induct)
  case less
  from less.prems show ?case
    unfolding rep.simps [of f greedy lo hi st]
    using less.hyps f by (fastforce simp: Let_def split: if_splits)
qed

lemma rmatch_caps: "y \<in> set (rmatch r st) \<Longrightarrow> length (caps y) = length (caps st)"
proof (induction r arbitrary: st y)
  case (RSeq a b)
  then show ?case by fastforce
next
  case (RRep lo hi greedy r)
  show ?case using rep_caps [of "\<lambda>x. rmatch r x", OF RRep.IH] RRep.prems by simp
next
  case (RGrp k r)
  then show ?case by fastforce
next
  case (RAhead r)
  then show ?case by (cases "rmatch r st") auto
qed (auto dest: step_char_caps split: list.splits if_splits)

lemma scan_fst_match:
  assumes "filter (\<lambda>x. \<not> ma \<or> length (rest x) < length s) (rmatch r (MState p s (replicate n None))) = x # xs"
  shows "fst (scan r n ma p s sk) =
     Mt (rev sk) (take (length s - length (rest x)) s) (map (\<lambda>c. case c of None \<Rightarrow> [] | Some v \<Rightarrow> v) (caps x)) #
     fst (scan r n (length s - length (rest x) = 0)
            (if length s - length (rest x) = 0 then p else Some (last (take (length s - length (rest x)) s)))
            (drop (length s - length (rest x)) s) [])"
  unfolding scan.simps [of r n ma p s sk] using assms
  by (simp add: Let_def split: prod.splits)

lemma scan_fst_nomatch:
  assumes "filter (\<lambda>x. \<not> ma \<or> length (rest x) < length s) (rmatch r (MState p s (replicate n None))) = []"
  shows "fst (scan r n ma p s sk) =
     (case s of [] \<Rightarrow> [] | c # s' \<Rightarrow> fst (scan r n False (Some c) s' (c # sk)))"
  unfolding scan.simps [of r n ma p s sk] using assms
  by (simp split: list.splits)

lemma scan_grp:
  "list_all2 (\<lambda>m m'. pre m = pre m' \<and> whole m = whole m' \<and> group1 m = whole m')
     (fst (scan (RGrp 1 r) (Suc n) ma p s sk)) (fst (scan r n' ma p s sk))"
proof (induction "2 * length s + (if ma then 0 else 1::nat)" arbitrary: ma p s sk rule: less_induct)
  case less
  let ?P = "\<lambda>x. \<not> ma \<or> length (rest x) < length s"
  let ?F = "\<lambda>x. MState (prev x) (rest x) ((caps x)[1 - 1 := Some (take (length s - length (rest x)) s)])"
  let ?xs = "filter ?P (rmatch r (MState p s (replicate (Suc n) None)))"
  let ?ys = "filter ?P (rmatch r (MState p s (replicate n' None)))"
  have g: "filter ?P (rmatch (RGrp 1 r) (MState p s (replicate (Suc n) None))) = map ?F ?xs"
    by (simp add: filter_map comp_def)
  have same: "list_all2 same_pos ?xs ?ys"
    by (rule filter_same [OF rmatch_same]) (simp_all add: same_pos_def)
  show ?case
  proof (cases ?xs)
    case Nil
    then have ys: "?ys = []" using same by simp
    have g0: "filter ?P (rmatch (RGrp 1 r) (MState p s (replicate (Suc n) None))) = []"
      using g Nil by simp
    show ?thesis
    proof (cases s)
      case Nil
      show ?thesis
        unfolding scan_fst_nomatch [OF g0] scan_fst_nomatch [OF ys] by (simp add: Nil)
    next
      case (Cons c s')
      have "list_all2 (\<lambda>m m'. pre m = pre m' \<and> whole m = whole m' \<and> group1 m = whole m')
          (fst (scan (RGrp 1 r) (Suc n) False (Some c) s' (c # sk))) (fst (scan r n' False (Some c) s' (c # sk)))"
        by (rule less.hyps) (simp add: Cons)
      then show ?thesis
        unfolding scan_fst_nomatch [OF g0] scan_fst_nomatch [OF ys] by (simp add: Cons)
    qed
  next
    case (Cons x xs')
    then obtain y ys' where ys: "?ys = y # ys'" and xy: "same_pos x y"
      using same by (cases ?ys) auto
    have rx: "rest y = rest x" using xy by (simp add: same_pos_def)
    let ?k = "length s - length (rest x)"
    let ?p' = "if ?k = 0 then p else Some (last (take ?k s))"
    have xf: "x \<in> set ?xs" using Cons by simp
    then have xin: "x \<in> set (rmatch r (MState p s (replicate (Suc n) None)))" and px: "?P x"
      by simp_all
    have len: "length (caps x) = Suc n" using rmatch_caps [OF xin] by simp
    have g1: "filter ?P (rmatch (RGrp 1 r) (MState p s (replicate (Suc n) None))) = ?F x # map ?F xs'"
      using g Cons by simp
    have ih: "list_all2 (\<lambda>m m'. pre m = pre m' \<and> whole m = whole m' \<and> group1 m = whole m')
        (fst (scan (RGrp 1 r) (Suc n) (?k = 0) ?p' (drop ?k s) [])) (fst (scan r n' (?k = 0) ?p' (drop ?k s) []))"
      by (rule less.hyps) (use px in auto)
    have hd1: "group1 (Mt (rev sk) (take ?k s) (map (\<lambda>c. case c of None \<Rightarrow> [] | Some v \<Rightarrow> v) (caps (?F x)))) = take ?k s"
      using len by (cases "caps x") (simp_all add: group1_def)
    have rF: "rest (?F x) = rest x" by simp
    show ?thesis
      unfolding scan_fst_match [OF g1] scan_fst_match [OF ys] rF rx
      using ih hd1 by simp
  qed
qed

lemma search_grp:
  "(re_search (RGrp 1 r) s = None \<longleftrightarrow> re_search r s = None) \<and>
   (\<forall>m m'. re_search (RGrp 1 r) s = Some m \<and> re_search r s = Some m' \<longrightarrow> group1 m = whole m')"
  using scan_grp [of r "ngroups r" False None s "[]" "ngroups r"]
  by (auto simp: re_search_def re_matches_def split: list.splits)

lemma analyze_block_mono:
  "set (map cf_timestamp acc) \<subseteq> set (map cf_timestamp (analyze_block acc b))"
  by (auto simp: analyze_block_def Let_def split: option.splits)

lemma analyze_block_flagged:
  assumes "flagged b"
  shows "\<exists>m. re_search (RGrp 1 timestamp_pattern) (py_strip b) = Some m \<and>
             group1 m \<in> set (map cf_timestamp (analyze_block acc b))"
  using assms by (auto simp: flagged_def analyze_block_def Let_def split: option.splits)

lemma foldl_analyze_mono:
  "set (map cf_timestamp acc) \<subseteq> set (map cf_timestamp (foldl analyze_block acc bs))"
proof (induction bs arbitrary: acc)
  case Nil
  show ?case by simp
next
  case (Cons b bs)
  show ?case using analyze_block_mono [of acc b] Cons [of "analyze_block acc b"] by auto
qed

lemma foldl_analyze_flagged:
  assumes "b \<in> set bs" and "flagged b"
  shows "\<exists>m. re_search (RGrp 1 timestamp_pattern) (py_strip b) = Some m \<and>
             group1 m \<in> set (map cf_timestamp (foldl analyze_block acc bs))"
  using assms(1)
proof (induction bs arbitrary: acc)
  case Nil
  then show ?case by simp
next
  case (Cons a bs)
  show ?case
  proof (cases "b = a")
    case True
    obtain m where m: "re_search (RGrp 1 timestamp_pattern) (py_strip b) = Some m"
      and g: "group1 m \<in> set (map cf_timestamp (analyze_block acc b))"
      using analyze_block_flagged [OF assms(2)] by blast
    have "group1 m \<in> set (map cf_timestamp (foldl analyze_block (analyze_block acc b) bs))"
      using g foldl_analyze_mono [of "analyze_block acc b" bs] by blast
    then show ?thesis using m True by auto
  next
    case False
    then have "b \<in> set bs" using Cons.prems by simp
    then show ?thesis using Cons.IH [of "analyze_block acc a"] by simp
  qed
qed

lemma analyzed_timestamps:
  "set (corrupted_timestamps_of (analyzed content)) =
   set (map cf_timestamp (analyze_forecast_file content []))"
  by (auto simp: corrupted_timestamps_of_def analyzed_def Let_def)

lemma flagged_timestamp:
  assumes "b \<in> set (split_dollars content)" and "flagged b"
  shows "\<exists>m. re_search (RGrp 1 timestamp_pattern) (py_strip b) = Some m \<and>
             group1 m \<in> set (corrupted_timestamps_of (analyzed content))"
  using foldl_analyze_flagged [OF assms, of "[]"]
  by (simp add: analyzed_timestamps analyze_forecast_file_def)

lemma process_block_skip:
  assumes "flagged b"
    and "re_search (RGrp 1 timestamp_pattern) (py_strip b) = Some m"
    and "group1 m \<in> set cts"
  shows "process_block cts ps b = Inr ps"
proof -
  have ne: "py_strip b \<noteq> []" using assms(1) by (simp add: flagged_def Let_def)
  obtain m' where m': "re_search timestamp_pattern (py_strip b) = Some m'"
    using search_grp [of timestamp_pattern "py_strip b"] assms(2) by (cases "re_search timestamp_pattern (py_strip b)") auto
  have "whole m' = group1 m"
    using search_grp [of timestamp_pattern "py_strip b"] assms(2) m' by auto
  then show ?thesis using ne m' assms(3) by (simp add: process_block_def Let_def)
qed

lemma process_blocks_filter:
  assumes "\<And>b ps. b \<in> set bs \<Longrightarrow> flagged b \<Longrightarrow> process_block cts ps b = Inr ps"
  shows "process_blocks cts ps bs = process_blocks cts ps (filter (\<lambda>b. \<not> flagged b) bs)"
  using assms
proof (induction bs arbitrary: ps)
  case Nil
  show ?case by simp
next
  case (Cons b bs)
  have ih: "\<And>ps. process_blocks cts ps bs = process_blocks cts ps (filter (\<lambda>b. \<not> flagged b) bs)"
    using Cons.IH Cons.prems by simp
  show ?case
  proof (cases "flagged b")
    case True
    then have "process_block cts ps b = Inr ps" using Cons.prems by simp
    then show ?thesis using True ih by simp
  next
    case False
    then show ?thesis using ih by (simp split: sum.splits)
  qed
qed

lemma embedded_timestamp_flagged:
  assumes "re_findall timestamp_pattern fc \<noteq> []"
  shows "has_corruption (detect_corruption_patterns fc) \<and>
         ''EMBEDDED_TIMESTAMPS'' \<in> set (corruption_types (detect_corruption_patterns fc))"
  using assms by (simp add: detect_flag detect_types)

text \<open>
  C5.  With the corrupted timestamps that the analysis of a file finds, the conversion of
  the same file skips every block the detector flags: the block leaves the state of the
  loop as it is, so it is not converted and nothing is appended for it, and the output of
  \<^verbatim>\<open>process\<close> is the output for the blocks that are not flagged.  A content
  with an embedded timestamp is flagged, with the category EMBEDDED_TIMESTAMPS.
\<close>

theorem corrupted_blocks_skipped:
  "(b \<in> set (split_dollars content) \<and> flagged b \<longrightarrow>
      process_block (corrupted_timestamps_of (analyzed content)) ps b = Inr ps) \<and>
   process_blocks (corrupted_timestamps_of (analyzed content)) ps (split_dollars content) =
     process_blocks (corrupted_timestamps_of (analyzed content)) ps
       (filter (\<lambda>b. \<not> flagged b) (split_dollars content)) \<and>
   process content =
     (case process_blocks (corrupted_timestamps_of (analyzed content))
             \<lparr>converted_blocks = [], processed_count = 0, error_count = 0\<rparr>
             (filter (\<lambda>b. \<not> flagged b) (split_dollars content)) of
        Inl e \<Rightarrow> Inl e
      | Inr st \<Rightarrow>
          Inr \<lparr>output_text = write_blocks 0 (length (converted_blocks st)) (converted_blocks st),
               res_processed_count = processed_count st,
               res_error_count = error_count st,
               res_skipped_count = length (corrupted_timestamps_of (analyzed content))\<rparr>) \<and>
   (re_findall timestamp_pattern fc \<noteq> [] \<longrightarrow>
      has_corruption (detect_corruption_patterns fc) \<and>
      ''EMBEDDED_TIMESTAMPS'' \<in> set (corruption_types (detect_corruption_patterns fc)))"
proof -
  have skip: "\<And>b ps. b \<in> set (split_dollars content) \<Longrightarrow> flagged b \<Longrightarrow>
      process_block (corrupted_timestamps_of (analyzed content)) ps b = Inr ps"
    using flagged_timestamp process_block_skip by blast
  have filt: "\<And>ps. process_blocks (corrupted_timestamps_of (analyzed content)) ps (split_dollars content) =
     process_blocks (corrupted_timestamps_of (analyzed content)) ps
       (filter (\<lambda>b. \<not> flagged b) (split_dollars content))"
    by (rule process_blocks_filter) (rule skip)
  show ?thesis
    using skip filt embedded_timestamp_flagged [of fc]
    by (simp add: process_def process_forecast_file_def Let_def)
qed

theorem corrupted_blocks_skipped_witness:
  "''2024-01-07T08:00:00-08:00 2024-01-07T09:00:00-08:00'' \<in>
     set (split_dollars ''2024-01-07T08:00:00-08:00 2024-01-07T09:00:00-08:00$$2024-01-08T08:00:00-08:00 .TODAY...N wind 5 to 10 kt.'') \<and>
   flagged ''2024-01-07T08:00:00-08:00 2024-01-07T09:00:00-08:00'' \<and>
   re_findall timestamp_pattern ''2024-01-07T09:00:00-08:00'' \<noteq> [] \<and>
   process_block
     (corrupted_timestamps_of (analyzed ''2024-01-07T08:00:00-08:00 2024-01-07T09:00:00-08:00$$2024-01-08T08:00:00-08:00 .TODAY...N wind 5 to 10 kt.''))
     \<lparr>converted_blocks = [], processed_count = 0, error_count = 0\<rparr>
     ''2024-01-07T08:00:00-08:00 2024-01-07T09:00:00-08:00'' =
     Inr \<lparr>converted_blocks = [], processed_count = 0, error_count = 0\<rparr> \<and>
   has_corruption (detect_corruption_patterns ''2024-01-07T09:00:00-08:00'') \<and>
   ''EMBEDDED_TIMESTAMPS'' \<in> set (corruption_types (detect_corruption_patterns ''2024-01-07T09:00:00-08:00''))"
proof -
  have h1: "''2024-01-07T08:00:00-08:00 2024-01-07T09:00:00-08:00'' \<in>
     set (split_dollars ''2024-01-07T08:00:00-08:00 2024-01-07T09:00:00-08:00$$2024-01-08T08:00:00-08:00 .TODAY...N wind 5 to 10 kt.'')"
    by code_simp
  have h2: "flagged ''2024-01-07T08:00:00-08:00 2024-01-07T09:00:00-08:00''"
    by code_simp
  have h3: "re_findall timestamp_pattern ''2024-01-07T09:00:00-08:00'' \<noteq> []"
    by code_simp
  show ?thesis
    using h1 h2 h3
      corrupted_blocks_skipped [of "''2024-01-07T08:00:00-08:00 2024-01-07T09:00:00-08:00''"
        "''2024-01-07T08:00:00-08:00 2024-01-07T09:00:00-08:00$$2024-01-08T08:00:00-08:00 .TODAY...N wind 5 to 10 kt.''"
        "\<lparr>converted_blocks = [], processed_count = 0, error_count = 0\<rparr>"
        "''2024-01-07T09:00:00-08:00''"]
    by blast
qed

end
